theory Spec2Isabelle
  imports Main "HOL-Library.Multiset"
begin

section \<open>JavaScript strings\<close>

text \<open>
  A JavaScript string is a sequence of UTF-16 code units; the methods the scripts call
  (\<open>includes\<close>, \<open>split\<close>, \<open>join\<close>, \<open>trim\<close>, \<open>toLowerCase\<close>, \<open>endsWith\<close>, \<open>repeat\<close>)
  and the regular expressions (no \<open>u\<close> flag) all work on code units. A string is therefore
  a list of code units, each a natural number. \<open>js\<close> embeds an ASCII literal; code units
  beyond ASCII are written as numbers.
\<close>

type_synonym jsstring = "nat list"

definition js :: "string \<Rightarrow> jsstring" where
  "js s = map of_char s"

text \<open>\<open>s.startsWith(p)\<close> and \<open>s.includes(t)\<close>.\<close>

fun js_startsWith :: "jsstring \<Rightarrow> jsstring \<Rightarrow> bool" where
  "js_startsWith s [] = True"
| "js_startsWith [] (p # ps) = False"
| "js_startsWith (c # cs) (p # ps) = (c = p \<and> js_startsWith cs ps)"

fun js_includes :: "jsstring \<Rightarrow> jsstring \<Rightarrow> bool" where
  "js_includes [] t = js_startsWith [] t"
| "js_includes (c # cs) t = (js_startsWith (c # cs) t \<or> js_includes cs t)"

definition js_endsWith :: "jsstring \<Rightarrow> jsstring \<Rightarrow> bool" where
  "js_endsWith s t = js_startsWith (rev s) (rev t)"

text \<open>
  \<open>s.trim()\<close> removes WhiteSpace and LineTerminator code units from both ends:
  TAB, LF, VT, FF, CR, SP, NBSP, U+1680, U+2000..U+200A, U+2028, U+2029, U+202F, U+205F,
  U+3000 and U+FEFF. The same set is the regular expression class \<open>\s\<close>.
\<close>

definition isWhiteSpace :: "nat \<Rightarrow> bool" where
  "isWhiteSpace c =
     (c = 9 \<or> c = 10 \<or> c = 11 \<or> c = 12 \<or> c = 13 \<or> c = 32 \<or> c = 160 \<or> c = 5760
      \<or> (8192 \<le> c \<and> c \<le> 8202) \<or> c = 8232 \<or> c = 8233 \<or> c = 8239 \<or> c = 8287
      \<or> c = 12288 \<or> c = 65279)"

definition js_trim :: "jsstring \<Rightarrow> jsstring" where
  "js_trim s = rev (dropWhile isWhiteSpace (rev (dropWhile isWhiteSpace s)))"

text \<open>
  \<open>s.toLowerCase()\<close>, unit by unit, on Basic Latin and the Latin-1 Supplement (the
  letters of the scripts' own Portuguese literals); every other code unit, the symbols
  and emoji of the report among them, is left as it is.
\<close>

definition lowerUnit :: "nat \<Rightarrow> nat" where
  "lowerUnit c =
     (if 65 \<le> c \<and> c \<le> 90 then c + 32
      else if 192 \<le> c \<and> c \<le> 222 \<and> c \<noteq> 215 then c + 32
      else c)"

definition js_toLowerCase :: "jsstring \<Rightarrow> jsstring" where
  "js_toLowerCase s = map lowerUnit s"

text \<open>
  \<open>s.split(sep)\<close> for a non-empty separator: the pieces between the leftmost,
  non-overlapping occurrences of \<open>sep\<close>; \<open>''.split(sep)\<close> is \<open>['']\<close>.
\<close>

function js_split :: "jsstring \<Rightarrow> jsstring \<Rightarrow> jsstring list" where
  "js_split [] sep = [[]]"
| "js_split (c # cs) sep =
     (if sep \<noteq> [] \<and> js_startsWith (c # cs) sep
      then [] # js_split (drop (length sep) (c # cs)) sep
      else (case js_split cs sep of
              [] \<Rightarrow> [[c]]
            | p # ps \<Rightarrow> (c # p) # ps))"
  by pat_completeness auto
termination
  by (relation "measure (\<lambda>(s, sep). length s)") (auto simp: neq_Nil_conv)

text \<open>\<open>xs.join(sep)\<close>.\<close>

fun js_join :: "jsstring list \<Rightarrow> jsstring \<Rightarrow> jsstring" where
  "js_join [] sep = []"
| "js_join [x] sep = x"
| "js_join (x # y # ys) sep = x @ sep @ js_join (y # ys) sep"

definition js_repeat :: "jsstring \<Rightarrow> nat \<Rightarrow> jsstring" where
  "js_repeat s n = concat (replicate n s)"

text \<open>Template interpolation of a number: its decimal digits, with a sign.\<close>

function showNat :: "nat \<Rightarrow> jsstring" where
  "showNat n = (if n < 10 then [48 + n] else showNat (n div 10) @ [48 + n mod 10])"
  by pat_completeness auto
termination
  by (relation "measure id") auto

definition showInt :: "int \<Rightarrow> jsstring" where
  "showInt i = (if i < 0 then 45 # showNat (nat (- i)) else showNat (nat i))"

definition nl :: jsstring where
  "nl = [10]"


section \<open>CheckResult and CommandExecutor\<close>

text \<open>
  The object \<open>runCommand\<close> resolves with. \<open>code\<close> is the exit code of the \<open>close\<close> event
  (\<open>null\<close>, here \<open>None\<close>, when a signal ended the process). \<open>skipped\<close> and \<open>filtered\<close> are
  properties the scripts only ever set to \<open>true\<close> and read for truthiness: absent is
  \<open>False\<close>.
\<close>

record CheckResult =
  command :: jsstring
  description :: jsstring
  code :: "int option"
  success :: bool
  stdout :: jsstring
  stderr :: jsstring
  "output" :: jsstring
  timestamp :: jsstring
  skipped :: bool
  filtered :: bool

text \<open>
  What the spawned process does, as far as the promise sees it: the promise is settled
  by whichever of the two events fires first. \<open>Closed c out err\<close> is the \<open>close\<close> event
  with exit code \<open>c\<close> after the \<open>data\<close> events have accumulated \<open>out\<close> and \<open>err\<close>;
  \<open>SpawnError m\<close> is the \<open>error\<close> event with \<open>error.message = m\<close>.
\<close>

datatype proc_event = Closed "int option" jsstring jsstring | SpawnError jsstring

definition runCommand ::
  "jsstring \<Rightarrow> jsstring list \<Rightarrow> jsstring \<Rightarrow> jsstring \<Rightarrow> proc_event \<Rightarrow> CheckResult" where
  "runCommand cmd args descr now ev =
     (case ev of
        Closed c out err \<Rightarrow>
          \<lparr> command = cmd @ js '' '' @ js_join args (js '' ''),
            description = descr,
            code = c,
            success = (c = Some 0),
            stdout = js_trim out,
            stderr = js_trim err,
            output = js_trim (out @ err),
            timestamp = now,
            skipped = False,
            filtered = False \<rparr>
      | SpawnError msg \<Rightarrow>
          \<lparr> command = cmd @ js '' '' @ js_join args (js '' ''),
            description = descr,
            code = Some (- 1),
            success = False,
            stdout = [],
            stderr = msg,
            output = msg,
            timestamp = now,
            skipped = True,
            filtered = False \<rparr>)"


section \<open>CheckRunner\<close>

text \<open>
  \<open>runAllTests\<close> awaits one command after the other. \<open>world cmd args\<close> is what the spawned
  process does and the instant at which the promise is settled; the two Prisma checks
  are run only when Prisma is installed and its schema exists.
\<close>

definition runCheck ::
  "(jsstring \<Rightarrow> jsstring list \<Rightarrow> jsstring \<times> proc_event) \<Rightarrow> jsstring \<Rightarrow> jsstring list \<Rightarrow> jsstring
     \<Rightarrow> CheckResult" where
  "runCheck world cmd args descr = (case world cmd args of (now, ev) \<Rightarrow> runCommand cmd args descr now ev)"

definition runAllTests ::
  "bool \<Rightarrow> bool \<Rightarrow> (jsstring \<Rightarrow> jsstring list \<Rightarrow> jsstring \<times> proc_event) \<Rightarrow> CheckResult list" where
  "runAllTests installed schemaExists world =
     [ runCheck world (js ''npx'') [js ''tsc'', js ''--noEmit'']
         (js ''Verifica'' @ [231, 227] @ js ''o TypeScript''),
       runCheck world (js ''npx'') [js ''eslint'', js ''.'', js ''--max-warnings'', js ''0'']
         (js ''Verifica'' @ [231, 227] @ js ''o ESLint'') ]
     @ (if installed \<and> schemaExists
        then [ runCheck world (js ''npx'') [js ''prisma'', js ''generate'']
                 (js ''Gera'' @ [231, 227] @ js ''o do Cliente Prisma'') ]
        else [])
     @ (if installed \<and> schemaExists
        then [ runCheck world (js ''npx'') [js ''prisma'', js ''migrate'', js ''status'']
                 (js ''Status das Migra'' @ [231, 245] @ js ''es Prisma'') ]
        else [])
     @ [ runCheck world (js ''npm'') [js ''run'', js ''build:dev''] (js ''Build do Next.js''),
         runCheck world (js ''npm'') [js ''audit'', js ''--audit-level'', js ''high'']
           (js ''Auditoria de Seguran'' @ [231] @ js ''a''),
         runCheck world (js ''npm'') [js ''ls'', js ''--depth=0'']
           (js ''Verifica'' @ [231, 227] @ js ''o de Depend'' @ [234] @ js ''ncias'') ]"


section \<open>NoiseFilter\<close>

definition logScriptFiles :: "jsstring list" where
  "logScriptFiles = [js ''build-logger.js'', js ''analyze-logs.js'', js ''setup-ignore-scripts.js'']"

text \<open>The \<open>some\<close> callback of \<open>filterLogScriptLines\<close>: does the line refer to a log script?\<close>

definition hasScriptReference :: "jsstring \<Rightarrow> jsstring list \<Rightarrow> bool" where
  "hasScriptReference line files =
     list_ex (\<lambda>scriptFile.
        js_includes line scriptFile
        \<or> js_includes line (js ''./'' @ scriptFile)
        \<or> js_includes line (js ''/'' @ scriptFile)
        \<or> js_includes line ([34] @ scriptFile @ [34])
        \<or> js_includes line ([39] @ scriptFile @ [39])) files"

definition filterLogScriptLines :: "jsstring \<Rightarrow> jsstring list \<Rightarrow> jsstring" where
  "filterLogScriptLines text files =
     (if text = [] then []
      else js_join (filter (\<lambda>line. \<not> hasScriptReference line files) (js_split text nl)) nl)"

definition errorIndicators :: "jsstring list" where
  "errorIndicators =
     [js ''error'', js ''Error:'', js ''TypeError:'', js ''SyntaxError:'', js ''ReferenceError:'',
      js ''warning'', js ''Warning:'', js ''fail'', js ''failed'', js ''FAIL'', js ''FAILED'']"

definition checkForRemainingErrors :: "jsstring \<Rightarrow> jsstring \<Rightarrow> jsstring \<Rightarrow> bool" where
  "checkForRemainingErrors out sout serr =
     (let combinedText = js_trim (out @ sout @ serr) in
      if combinedText = [] then False
      else (let lowerText = js_toLowerCase combinedText in
            list_ex (\<lambda>indicator. js_includes lowerText (js_toLowerCase indicator)) errorIndicators))"

definition hasLogScriptError :: "CheckResult \<Rightarrow> bool" where
  "hasLogScriptError r =
     list_ex (\<lambda>scriptFile.
        js_includes (output r) scriptFile
        \<or> js_includes (stdout r) scriptFile
        \<or> js_includes (stderr r) scriptFile) logScriptFiles"

text \<open>The \<open>map\<close> callback of \<open>filterLogScriptErrors\<close>.\<close>

definition filterResult :: "CheckResult \<Rightarrow> CheckResult" where
  "filterResult r =
     (if skipped r \<or> success r then r
      else if hasLogScriptError r then
        (let filteredOutput = filterLogScriptLines (output r) logScriptFiles;
             filteredStdout = filterLogScriptLines (stdout r) logScriptFiles;
             filteredStderr = filterLogScriptLines (stderr r) logScriptFiles;
             hasRemainingErrors = checkForRemainingErrors filteredOutput filteredStdout filteredStderr
         in if \<not> hasRemainingErrors
            then r\<lparr> success := True, code := Some 0, output := [], stdout := [], stderr := [],
                    filtered := True \<rparr>
            else r\<lparr> output := filteredOutput, stdout := filteredStdout, stderr := filteredStderr,
                    filtered := True \<rparr>)
      else r)"

definition filterLogScriptErrors :: "CheckResult list \<Rightarrow> CheckResult list" where
  "filterLogScriptErrors testResults = map filterResult testResults"


section \<open>RecurrenceDetector\<close>

text \<open>
  The history directory as \<open>checkIfErrorIsRecurrent\<close> reads it. Every file-system call
  sits inside one \<open>try\<close> whose \<open>catch\<close> returns \<open>false\<close>, so each call that can throw
  has a failing outcome in the model: \<open>NoDir\<close> is \<open>existsSync\<close> answering \<open>false\<close>,
  \<open>DirUnreadable\<close> is \<open>readdirSync\<close> throwing, and an entry whose \<open>entryMtime\<close> or
  \<open>entryContent\<close> is \<open>None\<close> makes \<open>statSync\<close> or \<open>readFileSync\<close> throw (a directory
  named \<open>x.log\<close>, a file without read permission). \<open>Dir es\<close> lists the entries in
  \<open>readdirSync\<close> order; \<open>entryMtime\<close> is the modification time in milliseconds.
\<close>

record dirEntry =
  entryName :: jsstring
  entryMtime :: "int option"
  entryContent :: "jsstring option"

datatype logsDirState = NoDir | DirUnreadable | Dir "dirEntry list"

text \<open>
  \<open>.sort((a, b) => bTime - aTime)\<close>: newest first, entries of equal time in their
  earlier order (Array.prototype.sort is stable). The comparator runs only when there
  are two entries or more, and then it reads the time of every entry.
\<close>

definition sortByMtime :: "dirEntry list \<Rightarrow> dirEntry list option" where
  "sortByMtime files =
     (if length files < 2 then Some files
      else if list_ex (\<lambda>e. entryMtime e = None) files then None
      else Some (sort_key (\<lambda>e. - the (entryMtime e)) files))"

definition isRealFailure :: "CheckResult \<Rightarrow> bool" where
  "isRealFailure r = (\<not> success r \<and> \<not> skipped r)"

definition statusErrorMarker :: jsstring where
  "statusErrorMarker = [10060] @ js '' Status: ERRO''"

text \<open>The \<open>for\<close> loop over \<open>recentLogs\<close>; a failed read ends it with \<open>false\<close>.\<close>

fun scanRecentLogs :: "CheckResult list \<Rightarrow> dirEntry list \<Rightarrow> bool" where
  "scanRecentLogs testResults [] = False"
| "scanRecentLogs testResults (logFile # rest) =
     (case entryContent logFile of
        None \<Rightarrow> False
      | Some logContent \<Rightarrow>
          (let hasFailedTests = list_ex isRealFailure testResults in
           if hasFailedTests \<and> js_includes logContent statusErrorMarker then
             (let currentErrors = map description (filter isRealFailure testResults);
                  hasRecurrentError =
                    list_ex (\<lambda>errorType. js_includes logContent errorType
                                         \<and> js_includes logContent (js ''FALHOU'')) currentErrors
              in if hasRecurrentError then True else scanRecentLogs testResults rest)
           else scanRecentLogs testResults rest))"

definition recentLogs :: "dirEntry list \<Rightarrow> dirEntry list option" where
  "recentLogs es =
     map_option (take 3) (sortByMtime (filter (\<lambda>e. js_endsWith (entryName e) (js ''.log'')) es))"

definition checkIfErrorIsRecurrent :: "CheckResult list \<Rightarrow> logsDirState \<Rightarrow> bool" where
  "checkIfErrorIsRecurrent testResults logsDir =
     (case logsDir of
        NoDir \<Rightarrow> False
      | DirUnreadable \<Rightarrow> False
      | Dir es \<Rightarrow>
          (case recentLogs es of
             None \<Rightarrow> False
           | Some logs \<Rightarrow> scanRecentLogs testResults logs))"


section \<open>ReportGenerator\<close>

text \<open>
  What \<open>generateComprehensiveLog\<close> reads from its surroundings: the clock
  (\<open>new Date().toISOString()\<close>), \<open>process.version\<close>, \<open>process.platform\<close>, the two Prisma
  probes, the rendering of a result's timestamp by \<open>toLocaleString('pt-BR')\<close>, and the
  rounded number of seconds since \<open>startTime\<close>. The model returns the text the function
  writes to the log file.
\<close>

record reportEnv =
  envTimestamp :: jsstring
  nodeVersion :: jsstring
  platform :: jsstring
  prismaInstalled :: bool
  prismaSchemaExists :: bool
  localeString :: "jsstring \<Rightarrow> jsstring"
  durationSeconds :: int

definition overallSuccess :: "CheckResult list \<Rightarrow> bool" where
  "overallSuccess testResults = list_all (\<lambda>result. success result \<or> skipped result) testResults"

definition reportHeader :: "reportEnv \<Rightarrow> jsstring" where
  "reportHeader env =
     js ''['' @ envTimestamp env @ js ''] Relat'' @ [243] @ js ''rio Completo de Testes'' @ nl
     @ js_repeat (js ''='') 60 @ nl @ nl"

definition environmentBlock :: "reportEnv \<Rightarrow> jsstring" where
  "environmentBlock env =
     [55357, 56615] @ js '' INFORMA'' @ [199, 213] @ js ''ES DO AMBIENTE'' @ nl
     @ js_repeat (js ''-'') 30 @ nl
     @ js ''Node.js: '' @ nodeVersion env @ nl
     @ js ''Plataforma: '' @ platform env @ nl
     @ js ''Prisma instalado: ''
       @ (if prismaInstalled env then js ''Sim'' else js ''N'' @ [227] @ js ''o'') @ nl
     @ js ''Schema Prisma: ''
       @ (if prismaSchemaExists env then js ''Encontrado'' else js ''N'' @ [227] @ js ''o encontrado'')
       @ nl
     @ nl"

definition statusBlock :: "CheckResult list \<Rightarrow> bool \<Rightarrow> jsstring" where
  "statusBlock testResults isRecurrent =
     (if overallSuccess testResults then
        [9989] @ js '' Status: SUCESSO'' @ nl @ nl
        @ (let filteredTests = filter filtered testResults in
           if length filteredTests > 0 then
             [55357, 56615]
             @ js '' FILTROS APLICADOS: Erros dos scripts de log foram removidos automaticamente.''
             @ nl
             @ js ''Arquivos filtrados: '' @ js_join (map description filteredTests) (js '', '')
             @ nl @ nl
           else [])
        @ js ''Todos os testes passaram com sucesso!'' @ nl @ nl
      else
        [10060] @ js '' Status: ERRO'' @ nl @ nl
        @ (if isRecurrent then
             [9888, 65039] @ js ''  ERRO RECORRENTE: Problemas similares j'' @ [225]
             @ js '' foram detectados em logs anteriores.'' @ nl @ nl
           else []))"

definition summaryBlock :: "CheckResult list \<Rightarrow> jsstring" where
  "summaryBlock testResults =
     (let successCount = length (filter success testResults);
          failedCount = length (filter (\<lambda>r. \<not> success r \<and> \<not> skipped r) testResults);
          skippedCount = length (filter skipped testResults);
          filteredCount = length (filter filtered testResults)
      in [55357, 56522] @ js '' RESUMO DOS TESTES'' @ nl
         @ js_repeat (js ''-'') 30 @ nl
         @ [9989] @ js '' Sucessos: '' @ showNat successCount @ nl
         @ [10060] @ js '' Falhas: '' @ showNat failedCount @ nl
         @ [9888, 65039] @ js ''  Ignorados: '' @ showNat skippedCount @ nl
         @ (if filteredCount > 0 then
              [55357, 56615] @ js '' Filtrados: '' @ showNat filteredCount
              @ js '' (erros de scripts de log removidos)'' @ nl
            else [])
         @ [55357, 56520] @ js '' Total: '' @ showNat (length testResults) @ nl @ nl)"

definition statusLabel :: "CheckResult \<Rightarrow> jsstring" where
  "statusLabel result =
     (if skipped result then [9888, 65039] @ js ''  IGNORADO''
      else if success result \<and> filtered result then [55357, 56615] @ js '' SUCESSO (FILTRADO)''
      else if success result then [9989] @ js '' SUCESSO''
      else if filtered result then [55357, 56615] @ js '' FALHOU (FILTRADO)''
      else [10060] @ js '' FALHOU'')"

definition showCode :: "int option \<Rightarrow> jsstring" where
  "showCode c = (case c of None \<Rightarrow> js ''null'' | Some i \<Rightarrow> showInt i)"

definition testDetail :: "reportEnv \<Rightarrow> nat \<times> CheckResult \<Rightarrow> jsstring" where
  "testDetail env ir =
     (case ir of (index, result) \<Rightarrow>
        showNat (index + 1) @ js ''. '' @ description result @ nl
        @ js ''   Status: '' @ statusLabel result @ nl
        @ js ''   Comando: '' @ command result @ nl
        @ js ''   C'' @ [243] @ js ''digo de sa'' @ [237] @ js ''da: '' @ showCode (code result) @ nl
        @ js ''   Hor'' @ [225] @ js ''rio: '' @ localeString env (timestamp result) @ nl
        @ (if \<not> filtered result \<and> output result \<noteq> [] then
             js ''   Output:'' @ nl
             @ concat (map (\<lambda>line. if js_trim line \<noteq> [] then js ''     '' @ line @ nl else [])
                          (js_split (output result) nl))
           else if filtered result then
             js ''   '' @ [8505, 65039]
             @ js ''  Output: [Filtrado - erros dos scripts de log removidos]'' @ nl
           else [])
        @ nl)"

definition detailsBlock :: "reportEnv \<Rightarrow> CheckResult list \<Rightarrow> jsstring" where
  "detailsBlock env testResults =
     [55357, 56523] @ js '' DETALHES DOS TESTES'' @ nl
     @ js_repeat (js ''-'') 30 @ nl @ nl
     @ concat (map (testDetail env) (enumerate 0 testResults))"

definition errorDetail :: "nat \<times> CheckResult \<Rightarrow> jsstring" where
  "errorDetail ir =
     (case ir of (index, result) \<Rightarrow>
        js ''Erro '' @ showNat (index + 1) @ js '': '' @ description result @ nl
        @ js_repeat (js ''-'') 20 @ nl
        @ (if stderr result \<noteq> [] then
             js ''Detalhes do erro:'' @ nl @ stderr result @ nl @ nl
           else [])
        @ (if stdout result \<noteq> [] \<and> stdout result \<noteq> stderr result then
             js ''Output adicional:'' @ nl @ stdout result @ nl @ nl
           else []))"

definition detailedErrorsBlock :: "CheckResult list \<Rightarrow> jsstring" where
  "detailedErrorsBlock testResults =
     (let failedTests = filter (\<lambda>r. \<not> success r \<and> \<not> skipped r \<and> \<not> filtered r) testResults in
      if length failedTests > 0 then
        [55357, 57000] @ js '' ERROS DETALHADOS'' @ nl
        @ js_repeat (js ''-'') 30 @ nl @ nl
        @ concat (map errorDetail (enumerate 0 failedTests))
      else [])"

definition filteredDetail :: "nat \<times> CheckResult \<Rightarrow> jsstring" where
  "filteredDetail ir =
     (case ir of (index, result) \<Rightarrow>
        js ''Filtrado '' @ showNat (index + 1) @ js '': '' @ description result @ nl
        @ js_repeat (js ''-'') 20 @ nl
        @ js ''Tipo: Erros dos scripts de log removidos'' @ nl
        @ js ''Motivo: Continha refer'' @ [234]
        @ js ''ncias a build-logger.js, analyze-logs.js ou setup-ignore-scripts.js'' @ nl @ nl)"

definition filteredErrorsBlock :: "CheckResult list \<Rightarrow> jsstring" where
  "filteredErrorsBlock testResults =
     (let filteredFailedTests = filter (\<lambda>r. \<not> success r \<and> filtered r) testResults in
      if length filteredFailedTests > 0 then
        [55357, 56615] @ js '' ERROS FILTRADOS'' @ nl
        @ js_repeat (js ''-'') 30 @ nl @ nl
        @ concat (map filteredDetail (enumerate 0 filteredFailedTests))
      else [])"

definition footerBlock :: "reportEnv \<Rightarrow> CheckResult list \<Rightarrow> jsstring" where
  "footerBlock env testResults =
     js_repeat (js ''='') 60 @ nl
     @ js ''Testes executados: '' @ js_join (map description testResults) (js '', '') @ nl
     @ (if \<not> prismaInstalled env \<or> \<not> prismaSchemaExists env then
          js ''Testes ignorados: ''
          @ js_join (if \<not> prismaInstalled env then [js ''Prisma (n'' @ [227] @ js ''o instalado)'']
                     else if \<not> prismaSchemaExists env
                          then [js ''Prisma (schema n'' @ [227] @ js ''o encontrado)'']
                          else []) (js '', '')
          @ nl
        else [])
     @ js ''Data/Hora: '' @ envTimestamp env @ nl
     @ js ''Dura'' @ [231, 227] @ js ''o total: '' @ showInt (durationSeconds env) @ js ''s'' @ nl"

definition generateComprehensiveLog :: "reportEnv \<Rightarrow> CheckResult list \<Rightarrow> bool \<Rightarrow> jsstring" where
  "generateComprehensiveLog env testResults isRecurrent =
     reportHeader env
     @ environmentBlock env
     @ statusBlock testResults isRecurrent
     @ summaryBlock testResults
     @ detailsBlock env testResults
     @ detailedErrorsBlock testResults
     @ filteredErrorsBlock testResults
     @ footerBlock env testResults"


section \<open>Regular expressions of the DiagnosticEngine\<close>

text \<open>
  The scripts' regular expressions are sequences of single-unit atoms, each taken once,
  optionally (\<open>x?\<close>), greedily any number of times (\<open>a*\<close>) or lazily any number of
  times (\<open>a*?\<close>), with capture groups around runs of them; \<open>a+\<close> is \<open>a\<close> then \<open>a*\<close>,
  \<open>a+?\<close> is \<open>a\<close> then \<open>a*?\<close>, \<open>a{n}\<close> is \<open>a\<close> \<open>n\<close> times. \<open>rmatch\<close> is the backtracking
  matcher of ECMAScript at one start position: the alternatives are tried in priority
  order (greedy: one more unit first; lazy: the rest of the pattern first) and the
  first that lets the whole pattern succeed is the match.
\<close>

datatype atom = Lit nat | AnyChar | WhiteSp | NonWhiteSp | Digit | Range nat nat

fun atomMatches :: "atom \<Rightarrow> nat \<Rightarrow> bool" where
  "atomMatches (Lit c) x = (x = c)"
| "atomMatches AnyChar x = (x \<noteq> 10 \<and> x \<noteq> 13 \<and> x \<noteq> 8232 \<and> x \<noteq> 8233)"
| "atomMatches WhiteSp x = isWhiteSpace x"
| "atomMatches NonWhiteSp x = (\<not> isWhiteSpace x)"
| "atomMatches Digit x = (48 \<le> x \<and> x \<le> 57)"
| "atomMatches (Range lo hi) x = (lo \<le> x \<and> x \<le> hi)"

datatype item = One atom | Opt atom | Star atom | LazyStar atom | GOpen nat | GClose nat

type_synonym regex = "item list"

text \<open>
  \<open>rmatch r s opened groups\<close>: match \<open>r\<close> at the start of \<open>s\<close>. \<open>opened\<close> remembers the input
  at each open group, \<open>groups\<close> the text of each closed one. The result is the input left
  after the match, with the groups.
\<close>

type_synonym groups = "(nat \<times> jsstring) list"

fun rmatch :: "regex \<Rightarrow> jsstring \<Rightarrow> groups \<Rightarrow> groups \<Rightarrow> (jsstring \<times> groups) option" where
  "rmatch [] s opened gs = Some (s, gs)"
| "rmatch (GOpen n # r) s opened gs = rmatch r s ((n, s) # opened) gs"
| "rmatch (GClose n # r) s opened gs =
     (case map_of opened n of
        None \<Rightarrow> None
      | Some start \<Rightarrow> rmatch r s opened ((n, take (length start - length s) start) # gs))"
| "rmatch (One a # r) [] opened gs = None"
| "rmatch (One a # r) (c # cs) opened gs =
     (if atomMatches a c then rmatch r cs opened gs else None)"
| "rmatch (Opt a # r) [] opened gs = rmatch r [] opened gs"
| "rmatch (Opt a # r) (c # cs) opened gs =
     (if atomMatches a c then
        (case rmatch r cs opened gs of
           Some m \<Rightarrow> Some m
         | None \<Rightarrow> rmatch r (c # cs) opened gs)
      else rmatch r (c # cs) opened gs)"
| "rmatch (Star a # r) [] opened gs = rmatch r [] opened gs"
| "rmatch (Star a # r) (c # cs) opened gs =
     (if atomMatches a c then
        (case rmatch (Star a # r) cs opened gs of
           Some m \<Rightarrow> Some m
         | None \<Rightarrow> rmatch r (c # cs) opened gs)
      else rmatch r (c # cs) opened gs)"
| "rmatch (LazyStar a # r) [] opened gs = rmatch r [] opened gs"
| "rmatch (LazyStar a # r) (c # cs) opened gs =
     (case rmatch r (c # cs) opened gs of
        Some m \<Rightarrow> Some m
      | None \<Rightarrow> (if atomMatches a c then rmatch (LazyStar a # r) cs opened gs else None))"

text \<open>
  One match object: the matched text (\<open>match[0]\<close>), the input after it, and the groups.
  \<open>rsearch\<close> finds the leftmost match, as \<open>RegExp.prototype.exec\<close> does from index 0.
\<close>

record rmatched =
  matchText :: jsstring
  matchRest :: jsstring
  matchGroups :: groups

fun rsearch :: "regex \<Rightarrow> jsstring \<Rightarrow> rmatched option" where
  "rsearch r [] =
     (case rmatch r [] [] [] of
        None \<Rightarrow> None
      | Some (rest, gs) \<Rightarrow> Some \<lparr> matchText = [], matchRest = rest, matchGroups = gs \<rparr>)"
| "rsearch r (c # cs) =
     (case rmatch r (c # cs) [] [] of
        None \<Rightarrow> rsearch r cs
      | Some (rest, gs) \<Rightarrow>
          Some \<lparr> matchText = take (length (c # cs) - length rest) (c # cs),
                 matchRest = rest, matchGroups = gs \<rparr>)"

text \<open>
  All matches of a global (\<open>g\<close>) expression, each search starting where the previous
  match ended. Every expression of the scripts consumes at least one unit, so a match
  leaves less input than the search was given; the scan ends where that is not so.
\<close>

function rmatchAll :: "regex \<Rightarrow> jsstring \<Rightarrow> rmatched list" where
  "rmatchAll r s =
     (case rsearch r s of
        None \<Rightarrow> []
      | Some m \<Rightarrow>
          (if length (matchRest m) < length s then m # rmatchAll r (matchRest m) else [m]))"
  by pat_completeness auto
termination
  by (relation "measure (\<lambda>(r, s). length s)") auto

text \<open>\<open>match[n]\<close>: the text of group \<open>n\<close>, \<open>undefined\<close> (here \<open>None\<close>) if it took no part.\<close>

definition matchGroup :: "rmatched \<Rightarrow> nat \<Rightarrow> jsstring option" where
  "matchGroup m n = map_of (matchGroups m) n"

definition lits :: "jsstring \<Rightarrow> regex" where
  "lits s = map (\<lambda>c. One (Lit c)) s"

definition oneOrMore :: "atom \<Rightarrow> regex" where
  "oneOrMore a = [One a, Star a]"

definition oneOrMoreLazy :: "atom \<Rightarrow> regex" where
  "oneOrMoreLazy a = [One a, LazyStar a]"

definition exactly :: "nat \<Rightarrow> atom \<Rightarrow> regex" where
  "exactly n a = replicate n (One a)"

text \<open>\<open>parseInt(s)\<close> with no radix: leading white space, a sign, \<open>0x\<close> for hexadecimal,
  then the longest run of digits; \<open>NaN\<close> (here \<open>None\<close>) when there is none.\<close>

definition digitValue :: "nat \<Rightarrow> nat option" where
  "digitValue c =
     (if 48 \<le> c \<and> c \<le> 57 then Some (c - 48)
      else if 97 \<le> c \<and> c \<le> 122 then Some (c - 87)
      else if 65 \<le> c \<and> c \<le> 90 then Some (c - 55)
      else None)"

definition isRadixDigit :: "nat \<Rightarrow> nat \<Rightarrow> bool" where
  "isRadixDigit radix c = (case digitValue c of None \<Rightarrow> False | Some d \<Rightarrow> d < radix)"

definition parseInt :: "jsstring \<Rightarrow> int option" where
  "parseInt s =
     (let s1 = dropWhile isWhiteSpace s;
          negative = js_startsWith s1 (js ''-'');
          s2 = (if js_startsWith s1 (js ''-'') \<or> js_startsWith s1 (js ''+'') then drop 1 s1 else s1);
          hex = (js_startsWith s2 (js ''0x'') \<or> js_startsWith s2 (js ''0X''));
          radix = (if hex then 16 else 10);
          s3 = (if hex then drop 2 s2 else s2);
          digits = takeWhile (isRadixDigit radix) s3;
          magnitude = foldl (\<lambda>acc c. acc * radix + the (digitValue c)) 0 digits
      in if digits = [] then None
         else Some (if negative then - int magnitude else int magnitude))"


section \<open>DiagnosticEngine\<close>

definition hasErrorIndicators :: "jsstring list" where
  "hasErrorIndicators =
     [[10060] @ js '' Status: ERRO'',
      js ''Status: ERRO'',
      [10060] @ js '' Falhas:'',
      js ''Falhas: [1-9]'',
      js ''ERROS DETALHADOS'',
      js ''Build falhou'',
      js ''Error:'',
      js ''TypeError:'',
      js ''SyntaxError:'',
      js ''ReferenceError:'']"

text \<open>The expression \<open>/\<dots> Falhas: [1-9]\d*/\<close> that closes \<open>hasError\<close> (after the cross mark).\<close>

definition failuresPattern :: regex where
  "failuresPattern = lits ([10060] @ js '' Falhas: '') @ [One (Range 49 57), Star Digit]"

definition hasError :: "jsstring \<Rightarrow> bool" where
  "hasError logContent =
     (list_ex (\<lambda>indicator. js_includes (js_toLowerCase logContent) (js_toLowerCase indicator))
              hasErrorIndicators
      \<or> rsearch failuresPattern logContent \<noteq> None)"

text \<open>
  \<open>lineNumber\<close> is \<open>null\<close>, or what \<open>parseInt\<close> returns: a number or \<open>NaN\<close>.
\<close>

datatype lineNumberValue = LineNull | LineNaN | LineNum int

record errorDetails =
  errorType :: jsstring
  message :: jsstring
  fileName :: jsstring
  lineNumber :: lineNumberValue
  stackTrace :: jsstring
  fullError :: jsstring
  failedTests :: "jsstring list"

definition detailedErrorsHeader :: jsstring where
  "detailedErrorsHeader = [55357, 57000] @ js '' ERROS DETALHADOS''"

text \<open>\<open>s.split(sep)[1]\<close>: \<open>undefined\<close> (here \<open>None\<close>) when \<open>sep\<close> does not occur.\<close>

definition splitSecond :: "jsstring \<Rightarrow> jsstring \<Rightarrow> jsstring option" where
  "splitSecond s sep = (case js_split s sep of _ # part # _ \<Rightarrow> Some part | _ \<Rightarrow> None)"

text \<open>\<open>/Erro \d+: (.+?)\n-{20}/g\<close> and \<open>/Erro \d+: (.+?)\n/\<close>.\<close>

definition failedTestPattern :: regex where
  "failedTestPattern =
     lits (js ''Erro '') @ oneOrMore Digit @ lits (js '': '') @ [GOpen 1] @ oneOrMoreLazy AnyChar @ [GClose 1]
     @ lits nl @ exactly 20 (Lit 45)"

definition testNamePattern :: regex where
  "testNamePattern =
     lits (js ''Erro '') @ oneOrMore Digit @ lits (js '': '') @ [GOpen 1] @ oneOrMoreLazy AnyChar @ [GClose 1]
     @ lits nl"

text \<open>
  The names of the failed checks. \<open>match.match(\<dots>)[1]\<close> throws a TypeError if the inner
  expression does not match: the result is \<open>None\<close> then.
\<close>

definition testNameOf :: "rmatched \<Rightarrow> jsstring option" where
  "testNameOf m =
     (case rsearch testNamePattern (matchText m) of
        None \<Rightarrow> None
      | Some inner \<Rightarrow> Some (case matchGroup inner 1 of None \<Rightarrow> [] | Some testName \<Rightarrow> testName))"

fun allSome :: "'a option list \<Rightarrow> 'a list option" where
  "allSome [] = Some []"
| "allSome (None # xs) = None"
| "allSome (Some x # xs) = (case allSome xs of None \<Rightarrow> None | Some ys \<Rightarrow> Some (x # ys))"

definition extractFailedTests :: "jsstring \<Rightarrow> jsstring list option" where
  "extractFailedTests logContent =
     (case splitSecond logContent detailedErrorsHeader of
        None \<Rightarrow> Some []
      | Some failedTestsSection \<Rightarrow>
          (if failedTestsSection = [] then Some []
           else allSome (map testNameOf (rmatchAll failedTestPattern failedTestsSection))))"

definition extractFullError :: "jsstring \<Rightarrow> jsstring" where
  "extractFullError logContent =
     js_trim
       (case splitSecond logContent (js ''Detalhes do erro:'') of
          Some (c # cs) \<Rightarrow> c # cs
        | _ \<Rightarrow> (case splitSecond logContent detailedErrorsHeader of
                  Some (c # cs) \<Rightarrow> c # cs
                | _ \<Rightarrow> logContent))"

text \<open>The five \<open>filePatterns\<close>, in the order of the array.\<close>

definition tsFile :: regex where
  "tsFile = lits (js ''.ts'') @ [Opt (Lit 120)]"

definition filePatterns :: "regex list" where
  "filePatterns =
     [ [GOpen 1] @ oneOrMore NonWhiteSp @ tsFile @ [GClose 1] @ lits (js ''('')
         @ [GOpen 2] @ oneOrMore Digit @ [GClose 2] @ lits (js '','') @ oneOrMore Digit @ lits (js '')''),
       [GOpen 1] @ oneOrMore NonWhiteSp @ tsFile @ [GClose 1] @ lits (js '':'')
         @ [GOpen 2] @ oneOrMore Digit @ [GClose 2] @ lits (js '':'') @ oneOrMore Digit,
       lits (js ''at'') @ oneOrMore WhiteSp @ [GOpen 1] @ oneOrMoreLazy AnyChar @ [GClose 1] @ lits (js '':'')
         @ [GOpen 2] @ oneOrMore Digit @ [GClose 2] @ lits (js '':'') @ oneOrMore Digit,
       lits (js ''Error in '') @ [GOpen 1] @ oneOrMore AnyChar @ tsFile @ [GClose 1],
       [GOpen 1] @ oneOrMore NonWhiteSp @ tsFile @ [GClose 1] @ lits (js '':'') @ [Star WhiteSp]
         @ [GOpen 2] @ oneOrMore AnyChar @ [GClose 2] ]"

text \<open>
  The loop over the patterns: the first pattern with a match decides, by its first
  match. The result is \<open>(fileName, lineNumber)\<close>; with no match the two fields keep
  their initial values \<open>''\<close> and \<open>null\<close>.
\<close>

fun locateFile :: "regex list \<Rightarrow> jsstring \<Rightarrow> jsstring \<times> lineNumberValue" where
  "locateFile [] logContent = ([], LineNull)"
| "locateFile (pattern # patterns) logContent =
     (case rmatchAll pattern logContent of
        [] \<Rightarrow> locateFile patterns logContent
      | m # _ \<Rightarrow>
          ((case matchGroup m 1 of None \<Rightarrow> [] | Some f \<Rightarrow> f),
           (case matchGroup m 2 of
              None \<Rightarrow> LineNull
            | Some [] \<Rightarrow> LineNull
            | Some (d # ds) \<Rightarrow>
                (case parseInt (d # ds) of None \<Rightarrow> LineNaN | Some n \<Rightarrow> LineNum n))))"

definition classifyError :: "jsstring list \<Rightarrow> jsstring \<Rightarrow> jsstring" where
  "classifyError tests logContent =
     (let errorLower = js_toLowerCase logContent in
      if list_ex (\<lambda>test. js_includes test (js ''TypeScript'')) tests
         \<or> js_includes errorLower (js ''typescript'') \<or> js_includes errorLower (js ''tsc'')
      then js ''TYPESCRIPT_ERROR''
      else if list_ex (\<lambda>test. js_includes test (js ''ESLint'')) tests
         \<or> js_includes errorLower (js ''eslint'')
      then js ''ESLINT_ERROR''
      else if list_ex (\<lambda>test. js_includes test (js ''Prisma'')) tests
         \<or> js_includes errorLower (js ''prisma'') \<or> js_includes errorLower (js ''database'')
      then js ''PRISMA_ERROR''
      else if list_ex (\<lambda>test. js_includes test (js ''Build'')) tests
         \<or> js_includes errorLower (js ''next'') \<or> js_includes errorLower (js ''webpack'')
      then js ''NEXTJS_ERROR''
      else if js_includes errorLower (js ''module not found'')
         \<or> js_includes errorLower (js ''cannot resolve'')
      then js ''MODULE_ERROR''
      else if js_includes errorLower (js ''syntax'')
      then js ''SYNTAX_ERROR''
      else js ''UNKNOWN_ERROR'')"

text \<open>\<open>extractErrorDetails\<close>; \<open>None\<close> is the TypeError of \<open>extractFailedTests\<close>.\<close>

definition extractErrorDetails :: "jsstring \<Rightarrow> errorDetails option" where
  "extractErrorDetails logContent =
     (case extractFailedTests logContent of
        None \<Rightarrow> None
      | Some tests \<Rightarrow>
          Some \<lparr> errorType = classifyError tests logContent,
                 message = [],
                 fileName = fst (locateFile filePatterns logContent),
                 lineNumber = snd (locateFile filePatterns logContent),
                 stackTrace = [],
                 fullError = extractFullError logContent,
                 failedTests = tests \<rparr>)"

text \<open>
  \<open>generateSpecificCommandsFromFailedTests\<close>. \<open>pushNew\<close> is
  \<open>if (!commands.includes(guard)) commands.push(\<dots>added)\<close>; the third parameter
  (\<open>projectErrors\<close>) is not read by the function and is left out. \<open>[...new Set(commands)]\<close>
  keeps the first occurrence of each command, in order.
\<close>

definition pushNew :: "jsstring list \<Rightarrow> jsstring \<Rightarrow> jsstring list \<Rightarrow> jsstring list" where
  "pushNew commands guard added = (if guard \<in> set commands then commands else commands @ added)"

definition commandsForTest :: "jsstring list \<Rightarrow> jsstring \<Rightarrow> jsstring list" where
  "commandsForTest commands test =
     (let c1 = (if js_includes test (js ''TypeScript'')
                then pushNew commands (js ''npx tsc --noEmit'') [js ''npx tsc --noEmit'']
                else commands);
          c2 = (if js_includes test (js ''ESLint'')
                then pushNew c1 (js ''npm run lint -- --fix'') [js ''npm run lint -- --fix'']
                else c1);
          c3 = (if js_includes test (js ''Prisma'')
                then pushNew c2 (js ''npx prisma generate'')
                       [js ''npx prisma generate'', js ''npx prisma migrate dev'']
                else c2);
          c4 = (if js_includes test (js ''Build'')
                then pushNew c3 (js ''rm -rf .next'') [js ''rm -rf .next'']
                else c3);
          c5 = (if js_includes test (js ''Depend'' @ [234] @ js ''ncias'')
                then pushNew c4 (js ''npm install'') [js ''npm install'']
                else c4)
      in if js_includes test (js ''Auditoria'')
         then pushNew c5 (js ''npm audit fix'') [js ''npm audit fix'']
         else c5)"

definition commandsForType :: "jsstring list \<Rightarrow> jsstring \<Rightarrow> jsstring list" where
  "commandsForType commands t =
     (if t = js ''TYPESCRIPT_ERROR'' then pushNew commands (js ''npx tsc --noEmit'') [js ''npx tsc --noEmit'']
      else if t = js ''PRISMA_ERROR'' then pushNew commands (js ''npx prisma generate'') [js ''npx prisma generate'']
      else if t = js ''MODULE_ERROR'' then pushNew commands (js ''npm install'') [js ''npm install'']
      else if t = js ''NEXTJS_ERROR'' then pushNew commands (js ''rm -rf .next'') [js ''rm -rf .next'']
      else commands)"

fun uniqueInOrder :: "jsstring list \<Rightarrow> jsstring list \<Rightarrow> jsstring list" where
  "uniqueInOrder seen [] = []"
| "uniqueInOrder seen (x # xs) =
     (if x \<in> set seen then uniqueInOrder seen xs else x # uniqueInOrder (x # seen) xs)"

definition generateSpecificCommandsFromFailedTests ::
  "jsstring list \<Rightarrow> errorDetails \<Rightarrow> jsstring list" where
  "generateSpecificCommandsFromFailedTests tests details =
     (let commands = foldl commandsForTest [] tests;
          commands' = commandsForType commands (errorType details)
      in uniqueInOrder [] (commands' @ [js ''npm run build:dev'', js ''node analyze-logs.js'']))"


section \<open>Notions the properties are stated with\<close>

text \<open>The two invariants of a CheckResult.\<close>

definition resultInvariant :: "CheckResult \<Rightarrow> bool" where
  "resultInvariant r = ((skipped r \<longrightarrow> \<not> success r) \<and> (filtered r \<longrightarrow> \<not> skipped r))"

text \<open>The promotion of a result by the NoiseFilter, as \<open>filterLogScriptErrors\<close> writes it.\<close>

definition promoted :: "CheckResult \<Rightarrow> CheckResult" where
  "promoted r =
     r\<lparr> success := True, code := Some 0, output := [], stdout := [], stderr := [], filtered := True \<rparr>"

text \<open>A line that mentions one of the log scripts.\<close>

definition noiseLine :: "jsstring \<Rightarrow> bool" where
  "noiseLine line = hasScriptReference line logScriptFiles"

text \<open>What \<open>filterLogScriptLines\<close> leaves of a text field.\<close>

definition stripped :: "jsstring \<Rightarrow> jsstring" where
  "stripped field = filterLogScriptLines field logScriptFiles"





text \<open>The prior report files of a history directory: its entries named \<open>*.log\<close>.\<close>

definition logFilesOf :: "dirEntry list \<Rightarrow> dirEntry list" where
  "logFilesOf es = filter (\<lambda>e. js_endsWith (entryName e) (js ''.log'')) es"

text \<open>
  A prior report matches the current results: it can be read and contains the
  error-status marker, the description of one real failure and \<open>FALHOU\<close>.
\<close>

definition reportMatches :: "CheckResult list \<Rightarrow> dirEntry \<Rightarrow> bool" where
  "reportMatches testResults e =
     (case entryContent e of
        None \<Rightarrow> False
      | Some logContent \<Rightarrow>
          js_includes logContent ([10060] @ js '' Status: ERRO'')
          \<and> list_ex (\<lambda>r. \<not> success r \<and> \<not> skipped r
                        \<and> js_includes logContent (description r)
                        \<and> js_includes logContent (js ''FALHOU'')) testResults)"


text \<open>
  The words a regular expression accepts, without the order in which the matcher tries
  them: the matcher is sound and complete for it. \<open>groupsClosedAfterOpen r ns\<close> says that
  every group \<open>r\<close> closes was opened before, in \<open>r\<close> or among \<open>ns\<close>.
\<close>

fun accepts :: "regex \<Rightarrow> jsstring \<Rightarrow> bool" where
  "accepts [] w = (w = [])"
| "accepts (One a # r) w = (\<exists>c cs. w = c # cs \<and> atomMatches a c \<and> accepts r cs)"
| "accepts (Opt a # r) w = (accepts r w \<or> (\<exists>c cs. w = c # cs \<and> atomMatches a c \<and> accepts r cs))"
| "accepts (Star a # r) w = (\<exists>u v. w = u @ v \<and> list_all (atomMatches a) u \<and> accepts r v)"
| "accepts (LazyStar a # r) w = (\<exists>u v. w = u @ v \<and> list_all (atomMatches a) u \<and> accepts r v)"
| "accepts (GOpen n # r) w = accepts r w"
| "accepts (GClose n # r) w = accepts r w"

fun groupsClosedAfterOpen :: "regex \<Rightarrow> nat list \<Rightarrow> bool" where
  "groupsClosedAfterOpen [] ns = True"
| "groupsClosedAfterOpen (GOpen n # r) ns = groupsClosedAfterOpen r (n # ns)"
| "groupsClosedAfterOpen (GClose n # r) ns = (n \<in> set ns \<and> groupsClosedAfterOpen r ns)"
| "groupsClosedAfterOpen (One a # r) ns = groupsClosedAfterOpen r ns"
| "groupsClosedAfterOpen (Opt a # r) ns = groupsClosedAfterOpen r ns"
| "groupsClosedAfterOpen (Star a # r) ns = groupsClosedAfterOpen r ns"
| "groupsClosedAfterOpen (LazyStar a # r) ns = groupsClosedAfterOpen r ns"

text \<open>No match of \<open>r\<close> in the text \<open>before @ rest\<close> starts inside \<open>before\<close>.\<close>

fun noMatchStartsIn :: "regex \<Rightarrow> jsstring \<Rightarrow> jsstring \<Rightarrow> bool" where
  "noMatchStartsIn r [] rest = True"
| "noMatchStartsIn r (c # before) rest =
     (rmatch r (c # before @ rest) [] [] = None \<and> noMatchStartsIn r before rest)"

text \<open>The compiler's line of the second end-to-end scenario, and the name of the check.\<close>

definition tsErrorLine :: jsstring where
  "tsErrorLine =
     js ''src/app/page.tsx(10,5): error TS2304: Cannot find name '' @ [39] @ js ''Foo'' @ [39] @ js ''.''"

definition typeCheckDescription :: jsstring where
  "typeCheckDescription = js ''Verifica'' @ [231, 227] @ js ''o TypeScript''"


section \<open>Example runs\<close>

definition exampleTime :: jsstring where
  "exampleTime = js ''2024-01-01T12:00:00.000Z''"

text \<open>A build whose only output is a failure of the logger script itself.\<close>

definition noiseOnlyRun :: CheckResult where
  "noiseOnlyRun =
     runCommand (js ''npm'') [js ''run'', js ''build:dev''] (js ''Build do Next.js'') exampleTime
       (Closed (Some 1) [] (js ''build-logger.js:12: ReferenceError''))"

text \<open>A logger line on stdout without a final line break, directly followed by a real
  error on stderr.\<close>

definition seamRun :: CheckResult where
  "seamRun =
     runCommand (js ''npm'') [js ''run'', js ''build:dev''] (js ''Build do Next.js'') exampleTime
       (Closed (Some 1) (js ''see build-logger.js'') (js ''Error: boom''))"

text \<open>A logger line followed by a real error line.\<close>

definition mixedRun :: CheckResult where
  "mixedRun =
     runCommand (js ''npm'') [js ''run'', js ''build:dev''] (js ''Build do Next.js'') exampleTime
       (Closed (Some 1) [] (js ''build-logger.js:12: ReferenceError'' @ nl @ js ''Error: real failure''))"

text \<open>A check that passes, and one whose executable could not be started.\<close>

definition passingRun :: CheckResult where
  "passingRun =
     runCommand (js ''npm'') [js ''ls'', js ''--depth=0''] (js ''Verifica'' @ [231, 227] @ js ''o de Depend'' @ [234] @ js ''ncias'')
       exampleTime (Closed (Some 0) (js ''project@0.1.0'' @ nl) [])"

definition skippedRun :: CheckResult where
  "skippedRun =
     runCommand (js ''npx'') [js ''eslint'', js ''.''] (js ''Verifica'' @ [231, 227] @ js ''o ESLint'') exampleTime
       (SpawnError (js ''spawn ENOENT''))"


text \<open>A project without Prisma in which only the build fails, on the logger script.\<close>

definition exampleWorld :: "jsstring \<Rightarrow> jsstring list \<Rightarrow> jsstring \<times> proc_event" where
  "exampleWorld cmd args =
     (exampleTime,
      if args = [js ''run'', js ''build:dev'']
      then Closed (Some 1) [] (js ''build-logger.js:12: ReferenceError'')
      else Closed (Some 0) (js ''ok'' @ nl) [])"





text \<open>The surroundings of a report: Node 20 on Linux, no Prisma, three seconds.\<close>

definition exampleEnv :: reportEnv where
  "exampleEnv =
     \<lparr> envTimestamp = js ''2024-01-01T12:00:03.000Z'',
       nodeVersion = js ''v20.11.0'',
       platform = js ''linux'',
       prismaInstalled = False,
       prismaSchemaExists = False,
       localeString = (\<lambda>t. js ''01/01/2024, 12:00:00''),
       durationSeconds = 3 \<rparr>"

text \<open>
  A history directory: the newest entry cannot be read (a directory named like a log),
  the older one is a report of a failed build.
\<close>

definition priorReport :: jsstring where
  "priorReport =
     [10060] @ js '' Status: ERRO'' @ nl @ nl
     @ js ''1. Build do Next.js'' @ nl
     @ js ''   Status: '' @ [10060] @ js '' FALHOU'' @ nl"

definition unreadableFirst :: "dirEntry list" where
  "unreadableFirst =
     [ \<lparr> entryName = js ''log-2024-01-02-09-30.log'', entryMtime = Some 2000, entryContent = None \<rparr>,
       \<lparr> entryName = js ''log-2024-01-01-09-30.log'', entryMtime = Some 1000,
         entryContent = Some priorReport \<rparr> ]"

definition readableHistory :: "dirEntry list" where
  "readableHistory =
     [ \<lparr> entryName = js ''notes.txt'', entryMtime = Some 3000, entryContent = Some priorReport \<rparr>,
       \<lparr> entryName = js ''log-2024-01-01-09-30.log'', entryMtime = Some 1000,
         entryContent = Some priorReport \<rparr>,
       \<lparr> entryName = js ''log-2024-01-02-09-30.log'', entryMtime = Some 2000,
         entryContent = Some (js ''ok'') \<rparr> ]"


text \<open>Four reports, all readable; the oldest is the one of the failed build.\<close>

definition fourReports :: "dirEntry list" where
  "fourReports =
     [ \<lparr> entryName = js ''log-2024-01-01-09-30.log'', entryMtime = Some 1000,
         entryContent = Some priorReport \<rparr>,
       \<lparr> entryName = js ''log-2024-01-02-09-30.log'', entryMtime = Some 2000,
         entryContent = Some (js ''ok'') \<rparr>,
       \<lparr> entryName = js ''log-2024-01-03-09-30.log'', entryMtime = Some 3000,
         entryContent = Some (js ''ok'') \<rparr>,
       \<lparr> entryName = js ''log-2024-01-04-09-30.log'', entryMtime = Some 4000,
         entryContent = Some (js ''ok'') \<rparr> ]"

text \<open>
  Two reports of which the newer one was removed after the directory was listed: neither
  its modification time nor its content can be read.
\<close>

definition vanishedReport :: "dirEntry list" where
  "vanishedReport =
     [ \<lparr> entryName = js ''log-2024-01-02-09-30.log'', entryMtime = None, entryContent = None \<rparr>,
       \<lparr> entryName = js ''log-2024-01-01-09-30.log'', entryMtime = Some 1000,
         entryContent = Some priorReport \<rparr> ]"

text \<open>
  The type check of the second scenario, and one whose compiler reports another file
  first.
\<close>

definition typeCheckRun :: CheckResult where
  "typeCheckRun =
     runCommand (js ''npx'') [js ''tsc'', js ''--noEmit''] typeCheckDescription exampleTime
       (Closed (Some 1) [] tsErrorLine)"

definition dbErrorLine :: jsstring where
  "dbErrorLine = js ''src/lib/db.ts(3,7): error TS2322: Type mismatch.''"

definition twoErrorsRun :: CheckResult where
  "twoErrorsRun =
     runCommand (js ''npx'') [js ''tsc'', js ''--noEmit''] typeCheckDescription exampleTime
       (Closed (Some 1) [] (dbErrorLine @ nl @ tsErrorLine))"

definition scenarioReport :: jsstring where
  "scenarioReport = generateComprehensiveLog exampleEnv [typeCheckRun, passingRun] False"

definition twoErrorsReport :: jsstring where
  "twoErrorsReport = generateComprehensiveLog exampleEnv [twoErrorsRun] False"


section \<open>Properties\<close>

subsection \<open>Strings\<close>

lemma js_trim_Nil: "js_trim [] = []"
  by (simp add: js_trim_def)

lemma js_startsWith_iff: "js_startsWith s t \<longleftrightarrow> (\<exists>b. s = t @ b)"
  by (induction s t rule: js_startsWith.induct) auto

lemma js_includes_iff: "js_includes s t \<longleftrightarrow> (\<exists>a b. s = a @ t @ b)"
proof (induction s)
  case Nil
  then show ?case by (cases t) auto
next
  case (Cons c cs)
  show ?case
  proof
    assume "js_includes (c # cs) t"
    then consider "js_startsWith (c # cs) t" | "js_includes cs t" by auto
    then show "\<exists>a b. c # cs = a @ t @ b"
    proof cases
      case 1
      then obtain b where "c # cs = t @ b" by (auto simp: js_startsWith_iff)
      then have "c # cs = [] @ t @ b" by simp
      then show ?thesis by blast
    next
      case 2
      then obtain a b where "cs = a @ t @ b" using Cons.IH by auto
      then have "c # cs = (c # a) @ t @ b" by simp
      then show ?thesis by blast
    qed
  next
    assume "\<exists>a b. c # cs = a @ t @ b"
    then obtain a b where ab: "c # cs = a @ t @ b" by blast
    show "js_includes (c # cs) t"
    proof (cases a)
      case Nil
      with ab have "js_startsWith (c # cs) t" by (auto simp: js_startsWith_iff)
      then show ?thesis by simp
    next
      case (Cons x a')
      with ab have "cs = a' @ t @ b" by simp
      then have "js_includes cs t" using Cons.IH by blast
      then show ?thesis by simp
    qed
  qed
qed

lemma js_includes_appendI1: "js_includes s t \<Longrightarrow> js_includes (s @ r) t"
  by (auto simp: js_includes_iff) (metis append.assoc)

lemma js_includes_appendI2: "js_includes s t \<Longrightarrow> js_includes (r @ s) t"
  by (auto simp: js_includes_iff) (metis append.assoc)

lemma js_includes_trans: "js_includes s t \<Longrightarrow> js_includes t u \<Longrightarrow> js_includes s u"
  by (auto simp: js_includes_iff) (metis append.assoc)

lemma js_includes_toLowerCase:
  "js_includes s t \<Longrightarrow> js_includes (js_toLowerCase s) (js_toLowerCase t)"
  unfolding js_includes_iff js_toLowerCase_def by (metis map_append)

lemma js_includes_sep:
  assumes "js_includes (x @ c # r) t" and "c \<notin> set t"
  shows "js_includes x t \<or> js_includes r t"
proof -
  from assms obtain a b where eq: "x @ c # r = a @ t @ b" by (auto simp: js_includes_iff)
  then consider u where "x = a @ u" "u @ c # r = t @ b" | u where "x @ u = a" "c # r = u @ t @ b" "u \<noteq> []"
    by (auto simp: append_eq_append_conv2) (metis append_Nil2)+
  then show ?thesis
  proof cases
    case 1
    then consider v where "u = t @ v" | v where "u @ v = t" "c # r = v @ b" "v \<noteq> []"
      by (auto simp: append_eq_append_conv2) (metis append_Nil2)+
    then show ?thesis
    proof cases
      case 1
      then show ?thesis using \<open>x = a @ u\<close> by (auto simp: js_includes_iff)
    next
      case 2
      then have "c \<in> set t" by (cases v) auto
      with assms show ?thesis by simp
    qed
  next
    case 2
    then obtain u' where "u = c # u'" by (cases u) auto
    with 2 have "r = u' @ t @ b" by simp
    then show ?thesis by (auto simp: js_includes_iff)
  qed
qed

lemma js_split_nl_Cons:
  "js_split (c # cs) nl =
     (if c = 10 then [] # js_split cs nl
      else (case js_split cs nl of [] \<Rightarrow> [[c]] | p # ps \<Rightarrow> (c # p) # ps))"
  by (simp add: nl_def)

lemma js_split_not_Nil: "js_split s sep \<noteq> []"
  by (induction s sep rule: js_split.induct) (auto split: list.splits)

lemma js_split_lines_no_nl: "l \<in> set (js_split s nl) \<Longrightarrow> 10 \<notin> set l"
proof (induction s arbitrary: l)
  case Nil
  then show ?case by simp
next
  case (Cons c cs)
  then show ?case
    by (auto simp: js_split_nl_Cons simp del: js_split.simps(2) split: if_splits list.splits)
qed

lemma js_split_no_nl: "10 \<notin> set s \<Longrightarrow> js_split s nl = [s]"
  by (induction s) (auto simp: js_split_nl_Cons simp del: js_split.simps(2))

lemma js_split_append_nl: "10 \<notin> set a \<Longrightarrow> js_split (a @ 10 # b) nl = a # js_split b nl"
  by (induction a) (auto simp: js_split_nl_Cons simp del: js_split.simps(2))

lemma js_join_includes:
  assumes "10 \<notin> set t" and "t \<noteq> []"
  shows "js_includes (js_join ls nl) t \<Longrightarrow> \<exists>l\<in>set ls. js_includes l t"
proof (induction ls)
  case Nil
  then show ?case using assms by (cases t) auto
next
  case (Cons x ls)
  show ?case
  proof (cases ls)
    case Nil
    with Cons.prems show ?thesis by simp
  next
    case (Cons y ys)
    with Cons.prems have "js_includes (x @ 10 # js_join ls nl) t" by (simp add: nl_def)
    then have "js_includes x t \<or> js_includes (js_join ls nl) t"
      using assms js_includes_sep by blast
    then show ?thesis using Cons.IH by auto
  qed
qed

subsection \<open>Stripping the lines of the log scripts\<close>

text \<open>
  No allowlisted file name contains a line break, so a name that occurs in the joined
  text occurs in one of its lines: what \<open>filterLogScriptLines\<close> returns mentions none,
  and a second pass of the filter finds nothing to strip.
\<close>

lemma logScriptFiles_no_nl: "f \<in> set logScriptFiles \<Longrightarrow> 10 \<notin> set f"
  by (auto simp: logScriptFiles_def js_def)

lemma logScriptFiles_not_Nil: "f \<in> set logScriptFiles \<Longrightarrow> f \<noteq> []"
  by (auto simp: logScriptFiles_def js_def)

lemma js_includes_inner: "js_includes line (a @ f @ b) \<Longrightarrow> js_includes line f"
  using js_includes_trans[of line "a @ f @ b" f] by (auto simp: js_includes_iff)

lemma hasScriptReference_iff:
  "hasScriptReference line files \<longleftrightarrow> (\<exists>f\<in>set files. js_includes line f)"
proof
  assume "hasScriptReference line files"
  then obtain f where f: "f \<in> set files"
    and d: "js_includes line f \<or> js_includes line (js ''./'' @ f @ [])
            \<or> js_includes line (js ''/'' @ f @ [])
            \<or> js_includes line ([34] @ f @ [34]) \<or> js_includes line ([39] @ f @ [39])"
    unfolding hasScriptReference_def list_ex_iff by auto
  from d have "js_includes line f"
    using js_includes_inner by blast
  with f show "\<exists>f\<in>set files. js_includes line f" by blast
next
  assume "\<exists>f\<in>set files. js_includes line f"
  then show "hasScriptReference line files"
    unfolding hasScriptReference_def list_ex_iff by blast
qed

lemma filterLogScriptLines_clean:
  assumes "f \<in> set logScriptFiles"
  shows "\<not> js_includes (filterLogScriptLines text logScriptFiles) f"
proof (cases "text = []")
  case True
  then show ?thesis using logScriptFiles_not_Nil[OF assms] by (cases f) (auto simp: filterLogScriptLines_def)
next
  case False
  show ?thesis
  proof
    assume "js_includes (filterLogScriptLines text logScriptFiles) f"
    then have "js_includes (js_join (filter (\<lambda>line. \<not> hasScriptReference line logScriptFiles) (js_split text nl)) nl) f"
      using False by (simp add: filterLogScriptLines_def)
    then obtain l where "l \<in> set (filter (\<lambda>line. \<not> hasScriptReference line logScriptFiles) (js_split text nl))"
        and "js_includes l f"
      using js_join_includes[OF logScriptFiles_no_nl[OF assms] logScriptFiles_not_Nil[OF assms]] by blast
    then show False using assms by (auto simp: hasScriptReference_iff)
  qed
qed

lemma hasLogScriptError_filtered:
  "\<not> hasLogScriptError (r\<lparr> output := filterLogScriptLines a logScriptFiles,
                            stdout := filterLogScriptLines b logScriptFiles,
                            stderr := filterLogScriptLines c logScriptFiles,
                            filtered := True \<rparr>)"
  by (auto simp: hasLogScriptError_def list_ex_iff filterLogScriptLines_clean)

lemma filterResult_idem: "filterResult (filterResult r) = filterResult r"
proof (cases "skipped r \<or> success r")
  case True
  then show ?thesis by (auto simp: filterResult_def)
next
  case False
  show ?thesis
  proof (cases "hasLogScriptError r")
    case no: False
    with False show ?thesis by (simp add: filterResult_def)
  next
    case yes: True
    show ?thesis
    proof (cases "checkForRemainingErrors (filterLogScriptLines (output r) logScriptFiles)
                    (filterLogScriptLines (stdout r) logScriptFiles)
                    (filterLogScriptLines (stderr r) logScriptFiles)")
      case True
      with False yes have eq: "filterResult r =
          r\<lparr> output := filterLogScriptLines (output r) logScriptFiles,
             stdout := filterLogScriptLines (stdout r) logScriptFiles,
             stderr := filterLogScriptLines (stderr r) logScriptFiles,
             filtered := True \<rparr>"
        by (simp add: filterResult_def Let_def)
      show ?thesis
        unfolding eq using False hasLogScriptError_filtered[where r=r and a="output r" and b="stdout r" and c="stderr r"]
        by (subst filterResult_def) simp
    next
      case no': False
      with False yes show ?thesis by (simp add: filterResult_def Let_def)
    qed
  qed
qed

subsection \<open>Trimming and the error indicators\<close>

lemma dropWhile_keeps_segment:
  assumes "t \<noteq> []" and "\<not> P (hd t)"
  shows "\<exists>a'. dropWhile P (a @ t @ b) = a' @ t @ b"
proof (induction a)
  case Nil
  have "dropWhile P (t @ b) = t @ b" using assms by (cases t) auto
  then show ?case by (metis append_Nil)
next
  case (Cons x a)
  then show ?case by (cases "P x") (auto intro: exI[of _ "x # a"])
qed

lemma js_trim_keeps:
  assumes "js_includes s t" and "t \<noteq> []" and "\<not> isWhiteSpace (hd t)" and "\<not> isWhiteSpace (last t)"
  shows "js_includes (js_trim s) t"
proof -
  from assms(1) obtain a b where s: "s = a @ t @ b" by (auto simp: js_includes_iff)
  obtain a' where l: "dropWhile isWhiteSpace s = a' @ t @ b"
    using dropWhile_keeps_segment[of t isWhiteSpace a b] assms(2,3) s by blast
  have rt: "rev t \<noteq> []" "\<not> isWhiteSpace (hd (rev t))"
    using assms(2,4) by (simp_all add: hd_rev)
  obtain b' where "dropWhile isWhiteSpace (rev b @ rev t @ rev a') = b' @ rev t @ rev a'"
    using dropWhile_keeps_segment[of "rev t" isWhiteSpace "rev b" "rev a'"] rt by blast
  then have "js_trim s = a' @ t @ rev b'"
    by (simp add: js_trim_def l)
  then show ?thesis by (auto simp: js_includes_iff)
qed


lemma js_includes_Nil_iff: "js_includes [] t \<longleftrightarrow> t = []"
  by (cases t) auto

lemma checkForRemainingErrors_Error:
  assumes "js_includes (a @ b @ c) (js ''Error:'')"
  shows "checkForRemainingErrors a b c"
proof -
  have k: "js_includes (js_trim (a @ b @ c)) (js ''Error:'')"
    by (rule js_trim_keeps[OF assms]) (simp_all add: js_def isWhiteSpace_def)
  then have ne: "js_trim (a @ b @ c) \<noteq> []"
    by (auto simp: js_includes_Nil_iff js_def)
  have "js_includes (js_toLowerCase (js_trim (a @ b @ c))) (js_toLowerCase (js ''Error:''))"
    using k by (rule js_includes_toLowerCase)
  moreover have "js_includes (js_toLowerCase (js ''Error:'')) (js_toLowerCase (js ''error''))"
    by (simp add: js_toLowerCase_def js_def lowerUnit_def)
  ultimately have "js_includes (js_toLowerCase (js_trim (a @ b @ c))) (js_toLowerCase (js ''error''))"
    by (rule js_includes_trans)
  then show ?thesis
    using ne by (simp add: checkForRemainingErrors_def Let_def errorIndicators_def del: js_includes.simps)
qed


subsection \<open>Texts that consist of log-script lines\<close>

lemma js_split_line_included: "l \<in> set (js_split s nl) \<Longrightarrow> js_includes s l"
proof (induction s arbitrary: l)
  case Nil
  then show ?case by simp
next
  case (Cons c cs)
  show ?case
  proof (cases "c = 10")
    case True
    with Cons.prems have "l = [] \<or> l \<in> set (js_split cs nl)"
      by (simp add: js_split_nl_Cons del: js_split.simps(2))
    then show ?thesis
    proof
      assume "l = []" then show ?thesis by simp
    next
      assume "l \<in> set (js_split cs nl)"
      then have "js_includes cs l" by (rule Cons.IH)
      then show ?thesis by simp
    qed
  next
    case False
    obtain p ps where sp: "js_split cs nl = p # ps"
      using js_split_not_Nil by (cases "js_split cs nl") auto
    with False Cons.prems have "l = c # p \<or> l \<in> set ps"
      by (simp add: js_split_nl_Cons del: js_split.simps(2))
    then show ?thesis
    proof
      assume l: "l = c # p"
      have "10 \<notin> set p" using js_split_lines_no_nl[of p cs] sp by simp
      have "\<exists>b. cs = p @ b" using sp
      proof (induction cs arbitrary: p ps)
        case Nil
        then show ?case by simp
      next
        case (Cons d ds)
        then show ?case
          by (auto simp: js_split_nl_Cons simp del: js_split.simps(2) split: if_splits list.splits)
      qed
      then have "js_startsWith (c # cs) l" using l by (auto simp: js_startsWith_iff)
      then show ?thesis by simp
    next
      assume "l \<in> set ps"
      then have "js_includes cs l" using Cons.IH sp by simp
      then show ?thesis by simp
    qed
  qed
qed

lemma all_noise_lines:
  assumes "list_all (\<lambda>line. hasScriptReference line logScriptFiles) (js_split text nl)"
  shows "filterLogScriptLines text logScriptFiles = []"
    and "\<exists>f\<in>set logScriptFiles. js_includes text f"
proof -
  have "filter (\<lambda>line. \<not> hasScriptReference line logScriptFiles) (js_split text nl) = []"
    using assms by (simp add: list_all_iff filter_empty_conv)
  then show "filterLogScriptLines text logScriptFiles = []"
    by (simp add: filterLogScriptLines_def)
  obtain l ls where sp: "js_split text nl = l # ls"
    using js_split_not_Nil by (cases "js_split text nl") auto
  with assms obtain f where f: "f \<in> set logScriptFiles" "js_includes l f"
    by (auto simp: hasScriptReference_iff)
  have "js_includes text l" using js_split_line_included[of l "text"] sp by simp
  with f show "\<exists>f\<in>set logScriptFiles. js_includes text f"
    using js_includes_trans by blast
qed

subsection \<open>Results of the executor\<close>

lemma js_trim_append_seam:
  assumes "out = [] \<or> \<not> isWhiteSpace (last out)" and "err = [] \<or> \<not> isWhiteSpace (hd err)"
  shows "js_trim (out @ err) = js_trim out @ js_trim err"
proof (cases "out = [] \<or> err = []")
  case True
  then show ?thesis by (auto simp: js_trim_def)
next
  case False
  then have o: "out \<noteq> []" "\<not> isWhiteSpace (last out)" and e: "err \<noteq> []" "\<not> isWhiteSpace (hd err)"
    using assms by auto
  have l: "dropWhile isWhiteSpace (out @ err) = dropWhile isWhiteSpace out @ err"
    using dropWhile_append1[of "last out" out isWhiteSpace err] o by simp
  have ne: "dropWhile isWhiteSpace out \<noteq> []"
    using o by (metis dropWhile_eq_Nil_conv last_in_set)
  have r1: "dropWhile isWhiteSpace (rev err) \<noteq> []"
    using e by (metis dropWhile_eq_Nil_conv hd_in_set set_rev)
  have "dropWhile isWhiteSpace (rev err @ rev (dropWhile isWhiteSpace out))
        = dropWhile isWhiteSpace (rev err) @ rev (dropWhile isWhiteSpace out)"
    using dropWhile_append1[of "hd err" "rev err" isWhiteSpace] e by simp
  moreover have "dropWhile isWhiteSpace (rev (dropWhile isWhiteSpace out)) = rev (dropWhile isWhiteSpace out)"
  proof -
    have "last (dropWhile isWhiteSpace out) = last out"
      using ne o by (metis takeWhile_dropWhile_id last_appendR)
    then have "hd (rev (dropWhile isWhiteSpace out)) = last out"
      using ne by (simp add: hd_rev)
    then show ?thesis using o ne by (metis dropWhile_eq_self_iff rev_is_Nil_conv)
  qed
  moreover have "dropWhile isWhiteSpace err = err"
    using e by (cases err) auto
  ultimately show ?thesis
    by (simp add: js_trim_def l)
qed


lemma runCommand_invariant: "resultInvariant (runCommand cmd args descr now ev)"
  by (cases ev) (simp_all add: runCommand_def resultInvariant_def)

lemma filterResult_invariant: "resultInvariant r \<Longrightarrow> resultInvariant (filterResult r)"
  by (auto simp: filterResult_def resultInvariant_def Let_def)

subsection \<open>NoiseFilter: the properties\<close>

text \<open>Unfolding rules that evaluate the model on the example runs.\<close>

lemmas string_eval = js_def nl_def js_trim_def isWhiteSpace_def js_toLowerCase_def lowerUnit_def

lemmas filter_eval = filterLogScriptErrors_def filterResult_def hasLogScriptError_def
  checkForRemainingErrors_def filterLogScriptLines_def hasScriptReference_def logScriptFiles_def
  errorIndicators_def noiseLine_def stripped_def promoted_def runCommand_def Let_def

lemma nth_filterLogScriptErrors:
  "i < length testResults \<Longrightarrow> filterLogScriptErrors testResults ! i = filterResult (testResults ! i)"
  by (simp add: filterLogScriptErrors_def)

lemma filterResult_promotes:
  assumes "\<not> success r" and "\<not> skipped r" and "hasLogScriptError r"
    and "\<not> checkForRemainingErrors (stripped (output r)) (stripped (stdout r)) (stripped (stderr r))"
  shows "filterResult r = promoted r"
  using assms by (simp add: filterResult_def promoted_def stripped_def Let_def)

lemma filterResult_keeps_failure:
  assumes "\<not> success r" and "\<not> skipped r" and "hasLogScriptError r"
    and "checkForRemainingErrors (stripped (output r)) (stripped (stdout r)) (stripped (stderr r))"
  shows "filterResult r =
           r\<lparr> output := stripped (output r), stdout := stripped (stdout r),
              stderr := stripped (stderr r), filtered := True \<rparr>"
  using assms by (simp add: filterResult_def stripped_def Let_def)

lemma hasLogScriptError_output:
  "f \<in> set logScriptFiles \<Longrightarrow> js_includes (output r) f \<Longrightarrow> hasLogScriptError r"
  by (auto simp: hasLogScriptError_def list_ex_iff)

text \<open>
  C2, as amended. The claim asks only that the \<open>output\<close> field consist of lines that
  mention a log script; the filter strips \<open>stdout\<close> and \<open>stderr\<close> separately and looks
  for error indicators in what is left of all three. So: for every failed, non-skipped
  result of the list whose \<open>output\<close> consists only of lines mentioning an allowlisted
  file name, and whose \<open>stdout\<close> and \<open>stderr\<close>, after the lines mentioning such a name are
  stripped, leave no error indicator, the result the NoiseFilter returns at the same
  position is the promoted one: \<open>success = true\<close>, exit code 0, \<open>output\<close>, \<open>stdout\<close> and
  \<open>stderr\<close> empty, \<open>filtered = true\<close>, every other field unchanged.
\<close>

theorem C2_noise_only_promoted:
  assumes "i < length testResults"
    and "\<not> success (testResults ! i)" and "\<not> skipped (testResults ! i)"
    and "list_all noiseLine (js_split (output (testResults ! i)) nl)"
    and "\<not> checkForRemainingErrors [] (stripped (stdout (testResults ! i)))
                                        (stripped (stderr (testResults ! i)))"
  shows "filterLogScriptErrors testResults ! i = promoted (testResults ! i)"
proof -
  let ?r = "testResults ! i"
  have n: "list_all (\<lambda>line. hasScriptReference line logScriptFiles) (js_split (output ?r) nl)"
    using assms(4) by (simp add: noiseLine_def[abs_def])
  have "stripped (output ?r) = []"
    using all_noise_lines(1)[OF n] by (simp add: stripped_def)
  moreover have "hasLogScriptError ?r"
    using all_noise_lines(2)[OF n] hasLogScriptError_output by blast
  ultimately have "filterResult ?r = promoted ?r"
    using assms(2,3,5) by (intro filterResult_promotes) simp_all
  then show ?thesis using assms(1) by (simp add: nth_filterLogScriptErrors)
qed

text \<open>
  The third end-to-end scenario of the specification is an instance: a build whose
  stderr is only \<open>build-logger.js:12: ReferenceError\<close> is promoted.
\<close>

theorem C2_witness:
  "filterLogScriptErrors [noiseOnlyRun] ! 0 = promoted noiseOnlyRun
   \<and> success (filterLogScriptErrors [noiseOnlyRun] ! 0)
   \<and> output noiseOnlyRun = js ''build-logger.js:12: ReferenceError''"
proof -
  have 1: "\<not> success ([noiseOnlyRun] ! 0)" "\<not> skipped ([noiseOnlyRun] ! 0)"
    by (simp_all add: noiseOnlyRun_def runCommand_def)
  have 2: "list_all noiseLine (js_split (output ([noiseOnlyRun] ! 0)) nl)"
    by (simp add: noiseOnlyRun_def filter_eval string_eval)
  have 3: "\<not> checkForRemainingErrors [] (stripped (stdout ([noiseOnlyRun] ! 0)))
                                        (stripped (stderr ([noiseOnlyRun] ! 0)))"
    by (simp add: noiseOnlyRun_def filter_eval string_eval)
  have 4: "output noiseOnlyRun = js ''build-logger.js:12: ReferenceError''"
    by (simp add: noiseOnlyRun_def filter_eval string_eval)
  show ?thesis
    using C2_noise_only_promoted[of 0 "[noiseOnlyRun]", OF _ 1 2 3] 4 by (simp add: promoted_def)
qed

text \<open>
  The claim as stated fails on \<open>seamRun\<close>, a result of the CommandExecutor: stdout is
  \<open>see build-logger.js\<close> with no final line break and stderr is \<open>Error: boom\<close>, so the
  \<open>output\<close> field is the single line \<open>see build-logger.jsError: boom\<close>, which mentions a
  log script and leaves nothing once stripped. The \<open>stderr\<close> field keeps its own line,
  with an error indicator, and the result stays failed.
\<close>

theorem C2_counterexample:
  "\<not> success seamRun \<and> \<not> skipped seamRun
   \<and> list_all noiseLine (js_split (output seamRun) nl)
   \<and> \<not> checkForRemainingErrors (stripped (output seamRun)) [] []
   \<and> \<not> success (filterLogScriptErrors [seamRun] ! 0)
   \<and> stderr (filterLogScriptErrors [seamRun] ! 0) = js ''Error: boom''"
  by (simp add: seamRun_def filter_eval string_eval)

text \<open>
  C3. For every failed, non-skipped result of the list whose \<open>output\<close> is one line that
  mentions an allowlisted file name and one genuine line (a line that mentions none and
  contains \<open>Error:\<close>), in either order, the result the NoiseFilter returns at the same
  position still has \<open>success = false\<close>, has \<open>filtered = true\<close>, and its \<open>output\<close> is
  the genuine line, which it therefore still contains.
\<close>

theorem C3_genuine_error_kept:
  assumes "i < length testResults"
    and "\<not> success (testResults ! i)" and "\<not> skipped (testResults ! i)"
    and "10 \<notin> set noise" and "noiseLine noise"
    and "10 \<notin> set genuine" and "\<not> noiseLine genuine" and "js_includes genuine (js ''Error:'')"
    and "output (testResults ! i) = noise @ nl @ genuine
         \<or> output (testResults ! i) = genuine @ nl @ noise"
  shows "\<not> success (filterLogScriptErrors testResults ! i)
         \<and> filtered (filterLogScriptErrors testResults ! i)
         \<and> output (filterLogScriptErrors testResults ! i) = genuine
         \<and> js_includes (output (filterLogScriptErrors testResults ! i)) genuine"
proof -
  let ?r = "testResults ! i"
  obtain f where f: "f \<in> set logScriptFiles" "js_includes noise f"
    using assms(5) by (auto simp: noiseLine_def hasScriptReference_iff)
  have "js_includes (noise @ nl @ genuine) noise" "js_includes (genuine @ nl @ noise) noise"
    unfolding js_includes_iff by (metis append_Nil, metis append_Nil2 append.assoc)
  then have "js_includes (output ?r) noise"
    using assms(9) by auto
  then have err: "hasLogScriptError ?r"
    using f js_includes_trans hasLogScriptError_output by blast
  have ne: "output ?r \<noteq> []" using assms(9) by (auto simp: nl_def)
  have sp: "js_split (output ?r) nl = [noise, genuine] \<or> js_split (output ?r) nl = [genuine, noise]"
  proof -
    have "js_split (noise @ 10 # genuine) nl = [noise, genuine]"
      "js_split (genuine @ 10 # noise) nl = [genuine, noise]"
      using assms(4,6) by (simp_all add: js_split_append_nl js_split_no_nl del: js_split.simps)
    moreover have "output ?r = noise @ 10 # genuine \<or> output ?r = genuine @ 10 # noise"
      using assms(9) by (simp add: nl_def)
    ultimately show ?thesis by auto
  qed
  have st: "stripped (output ?r) = genuine"
    using sp ne assms(5,7) by (auto simp: stripped_def filterLogScriptLines_def noiseLine_def)
  have "js_includes (genuine @ stripped (stdout ?r) @ stripped (stderr ?r)) (js ''Error:'')"
    using assms(8) by (rule js_includes_appendI1)
  then have "checkForRemainingErrors (stripped (output ?r)) (stripped (stdout ?r)) (stripped (stderr ?r))"
    unfolding st by (rule checkForRemainingErrors_Error)
  then have "filterResult ?r =
      ?r\<lparr> output := stripped (output ?r), stdout := stripped (stdout ?r),
           stderr := stripped (stderr ?r), filtered := True \<rparr>"
    using assms(2,3) err by (intro filterResult_keeps_failure)
  then have "\<not> success (filterResult ?r) \<and> filtered (filterResult ?r) \<and> output (filterResult ?r) = genuine"
    using assms(2) st by simp
  moreover have "js_includes genuine genuine"
    by (simp add: js_includes_iff) (metis append_Nil append_Nil2)
  ultimately show ?thesis using assms(1) by (simp add: nth_filterLogScriptErrors)
qed

theorem C3_witness:
  "\<not> success (filterLogScriptErrors [mixedRun] ! 0)
   \<and> filtered (filterLogScriptErrors [mixedRun] ! 0)
   \<and> output (filterLogScriptErrors [mixedRun] ! 0) = js ''Error: real failure''
   \<and> output mixedRun = js ''build-logger.js:12: ReferenceError'' @ nl @ js ''Error: real failure''"
proof -
  have 1: "\<not> success ([mixedRun] ! 0)" "\<not> skipped ([mixedRun] ! 0)"
    by (simp_all add: mixedRun_def runCommand_def)
  have 2: "10 \<notin> set (js ''build-logger.js:12: ReferenceError'')"
    "noiseLine (js ''build-logger.js:12: ReferenceError'')"
    "10 \<notin> set (js ''Error: real failure'')"
    "\<not> noiseLine (js ''Error: real failure'')"
    "js_includes (js ''Error: real failure'') (js ''Error:'')"
    by (simp_all add: filter_eval string_eval)
  have 3: "output ([mixedRun] ! 0) = js ''build-logger.js:12: ReferenceError'' @ nl @ js ''Error: real failure''"
    by (simp add: mixedRun_def filter_eval string_eval)
  show ?thesis
    using C3_genuine_error_kept[of 0 "[mixedRun]" "js ''build-logger.js:12: ReferenceError''"
        "js ''Error: real failure''", OF _ 1 2] 3
    by simp
qed












text \<open>
  C8. The NoiseFilter is idempotent: for every list of results, filtering the filtered
  list gives the filtered list again.
\<close>

theorem C8_filter_idempotent:
  "filterLogScriptErrors (filterLogScriptErrors testResults) = filterLogScriptErrors testResults"
  by (simp add: filterLogScriptErrors_def filterResult_idem)

theorem C8_witness:
  "filterLogScriptErrors (filterLogScriptErrors [mixedRun, noiseOnlyRun, passingRun, skippedRun])
   = filterLogScriptErrors [mixedRun, noiseOnlyRun, passingRun, skippedRun]"
  by (rule C8_filter_idempotent)

subsection \<open>CommandExecutor: the properties\<close>

text \<open>
  C7. Every result the CommandExecutor produces satisfies both invariants (\<open>skipped\<close>
  implies not \<open>success\<close>; \<open>filtered\<close> implies not \<open>skipped\<close>), and so does every result of
  the list the NoiseFilter returns for the battery the CheckRunner has run; in general
  the NoiseFilter returns a list whose every result satisfies them whenever every
  result it is given does.
\<close>

theorem C7_invariants:
  "resultInvariant (runCommand cmd args descr now ev)
   \<and> list_all resultInvariant (filterLogScriptErrors (runAllTests installed schemaExists world))
   \<and> (list_all resultInvariant testResults
        \<longrightarrow> list_all resultInvariant (filterLogScriptErrors testResults))"
proof -
  have "list_all resultInvariant (runAllTests installed schemaExists world)"
    by (simp add: runAllTests_def runCheck_def runCommand_invariant split: prod.splits)
  then show ?thesis
    by (simp add: runCommand_invariant filterLogScriptErrors_def list_all_iff filterResult_invariant)
qed

theorem C7_witness:
  "resultInvariant skippedRun
   \<and> list_all resultInvariant (filterLogScriptErrors (runAllTests False False exampleWorld))
   \<and> list_all resultInvariant [mixedRun, noiseOnlyRun, passingRun, skippedRun]
   \<and> list_all resultInvariant (filterLogScriptErrors [mixedRun, noiseOnlyRun, passingRun, skippedRun])"
proof -
  have "list_all resultInvariant [mixedRun, noiseOnlyRun, passingRun, skippedRun]"
    by (simp add: mixedRun_def noiseOnlyRun_def passingRun_def skippedRun_def runCommand_invariant)
  then show ?thesis
    using C7_invariants[of "js ''npx''" "[js ''eslint'', js ''.'']"
        "js ''Verifica'' @ [231, 227] @ js ''o ESLint''" exampleTime "SpawnError (js ''spawn ENOENT'')"
        False False exampleWorld "[mixedRun, noiseOnlyRun, passingRun, skippedRun]"]
    by (simp add: skippedRun_def)
qed

text \<open>
  C10, as amended. The executor trims the two captured streams and their concatenation
  separately: for every result created from a completed process, \<open>output\<close> is the
  trimmed concatenation of the captured stdout and stderr text, and \<open>stdout\<close> and
  \<open>stderr\<close> are the trimmed streams. \<open>output\<close> is the concatenation of the two fields
  when the captured stdout does not end in white space and the captured stderr does not
  begin with it.
\<close>

theorem C10_output_trimmed_concatenation:
  "output (runCommand cmd args descr now (Closed c out err)) = js_trim (out @ err)
   \<and> stdout (runCommand cmd args descr now (Closed c out err)) = js_trim out
   \<and> stderr (runCommand cmd args descr now (Closed c out err)) = js_trim err
   \<and> ((out = [] \<or> \<not> isWhiteSpace (last out)) \<and> (err = [] \<or> \<not> isWhiteSpace (hd err))
        \<longrightarrow> output (runCommand cmd args descr now (Closed c out err))
            = stdout (runCommand cmd args descr now (Closed c out err))
              @ stderr (runCommand cmd args descr now (Closed c out err)))"
  by (simp add: runCommand_def js_trim_append_seam)

theorem C10_witness:
  "output seamRun = stdout seamRun @ stderr seamRun
   \<and> output seamRun = js ''see build-logger.jsError: boom''"
proof -
  have "\<not> isWhiteSpace (last (js ''see build-logger.js''))" "\<not> isWhiteSpace (hd (js ''Error: boom''))"
    by (simp_all add: string_eval)
  then show ?thesis
    using C10_output_trimmed_concatenation[of "js ''npm''" "[js ''run'', js ''build:dev'']"
        "js ''Build do Next.js''" exampleTime "Some 1" "js ''see build-logger.js''" "js ''Error: boom''"]
    by (simp add: seamRun_def string_eval)
qed

text \<open>
  The claim as stated fails as soon as stdout ends with a line break and stderr is not
  empty: the result below has \<open>output = a\nb\<close>, \<open>stdout = a\<close> and \<open>stderr = b\<close>.
\<close>

theorem C10_counterexample:
  "output (runCommand (js ''npm'') [js ''ls''] (js ''deps'') exampleTime
             (Closed (Some 0) (js ''a'' @ nl) (js ''b'')))
   \<noteq> stdout (runCommand (js ''npm'') [js ''ls''] (js ''deps'') exampleTime
               (Closed (Some 0) (js ''a'' @ nl) (js ''b'')))
     @ stderr (runCommand (js ''npm'') [js ''ls''] (js ''deps'') exampleTime
                 (Closed (Some 0) (js ''a'' @ nl) (js ''b'')))"
  by (simp add: runCommand_def string_eval)

subsection \<open>ReportGenerator\<close>

lemmas example_runs = noiseOnlyRun_def seamRun_def mixedRun_def passingRun_def
  skippedRun_def exampleTime_def runCommand_def

text \<open>
  C9. For every list of results, the overall status computed for the report is success
  if and only if every result has \<open>success\<close> or \<open>skipped\<close> set; the status line of the
  rendered report, which follows the environment block, is the success line in exactly
  that case and the error line otherwise.
\<close>

theorem C9_overall_status:
  "(overallSuccess testResults \<longleftrightarrow> (\<forall>r\<in>set testResults. success r \<or> skipped r))
   \<and> (\<exists>rest. generateComprehensiveLog env testResults isRecurrent
          = reportHeader env @ environmentBlock env
            @ (if \<forall>r\<in>set testResults. success r \<or> skipped r
               then [9989] @ js '' Status: SUCESSO'' else [10060] @ js '' Status: ERRO'')
            @ nl @ nl @ rest)"
proof -
  have a: "overallSuccess testResults \<longleftrightarrow> (\<forall>r\<in>set testResults. success r \<or> skipped r)"
    by (simp add: overallSuccess_def list_all_iff)
  have "\<exists>rest. statusBlock testResults isRecurrent
          = (if overallSuccess testResults
             then [9989] @ js '' Status: SUCESSO'' else [10060] @ js '' Status: ERRO'')
            @ nl @ nl @ rest"
    by (simp add: statusBlock_def)
  then obtain rest where "statusBlock testResults isRecurrent
          = (if \<forall>r\<in>set testResults. success r \<or> skipped r
             then [9989] @ js '' Status: SUCESSO'' else [10060] @ js '' Status: ERRO'')
            @ nl @ nl @ rest"
    unfolding a by blast
  then have "generateComprehensiveLog env testResults isRecurrent
          = reportHeader env @ environmentBlock env
            @ (if \<forall>r\<in>set testResults. success r \<or> skipped r
               then [9989] @ js '' Status: SUCESSO'' else [10060] @ js '' Status: ERRO'')
            @ nl @ nl @ (rest @ summaryBlock testResults @ detailsBlock env testResults
                 @ detailedErrorsBlock testResults @ filteredErrorsBlock testResults
                 @ footerBlock env testResults)"
    by (simp add: generateComprehensiveLog_def)
  then show ?thesis using a by blast
qed

theorem C9_witness:
  "overallSuccess [passingRun, skippedRun] \<and> \<not> overallSuccess [passingRun, mixedRun]"
  using C9_overall_status[of "[passingRun, skippedRun]" exampleEnv False]
    C9_overall_status[of "[passingRun, mixedRun]" exampleEnv False]
  by (simp add: example_runs)

lemma summaryBlock_falhas:
  "js_includes (summaryBlock testResults) ([10060] @ js '' Falhas:'')"
proof -
  have "\<exists>a b. summaryBlock testResults = a @ ([10060] @ js '' Falhas:'') @ b"
    unfolding summaryBlock_def Let_def
    by (rule exI[of _ "[55357, 56522] @ js '' RESUMO DOS TESTES'' @ nl @ js_repeat (js ''-'') 30 @ nl
          @ [9989] @ js '' Sucessos: '' @ showNat (length (filter success testResults)) @ nl"],
        rule exI[of _ "js '' ''
          @ showNat (length (filter (\<lambda>r. \<not> success r \<and> \<not> skipped r) testResults)) @ nl
          @ [9888, 65039] @ js ''  Ignorados: '' @ showNat (length (filter skipped testResults)) @ nl
          @ (if length (filter filtered testResults) > 0 then
              [55357, 56615] @ js '' Filtrados: '' @ showNat (length (filter filtered testResults))
              @ js '' (erros de scripts de log removidos)'' @ nl
            else [])
         @ [55357, 56520] @ js '' Total: '' @ showNat (length testResults) @ nl @ nl"])
       (simp add: js_def)
  then show ?thesis by (simp only: js_includes_iff)
qed

lemma hasError_generateComprehensiveLog:
  "hasError (generateComprehensiveLog env testResults isRecurrent)"
proof -
  have "js_includes (generateComprehensiveLog env testResults isRecurrent) ([10060] @ js '' Falhas:'')"
    unfolding generateComprehensiveLog_def
    by (intro js_includes_appendI2 js_includes_appendI1[of "summaryBlock testResults"] summaryBlock_falhas)
  then have "js_includes (js_toLowerCase (generateComprehensiveLog env testResults isRecurrent))
               (js_toLowerCase ([10060] @ js '' Falhas:''))"
    by (rule js_includes_toLowerCase)
  then show ?thesis
    by (simp add: hasError_def hasErrorIndicators_def del: js_includes.simps)
qed

text \<open>
  C1 does not hold of the code. \<open>hasError\<close> lists the literal \<open>Falhas:\<close> line label (with
  its cross mark) among its indicators, and the ReportGenerator writes that label into
  the summary of every report, so \<open>hasError\<close> answers \<open>true\<close> for every rendered report
  (\<open>hasError_generateComprehensiveLog\<close>). The report of one passing check has overall
  status success and is flagged all the same.
\<close>

theorem C1_passing_report_flagged:
  "overallSuccess [passingRun]
   \<and> hasError (generateComprehensiveLog exampleEnv [passingRun] False)"
  by (simp add: hasError_generateComprehensiveLog overallSuccess_def example_runs)

subsection \<open>RecurrenceDetector\<close>

lemmas recurrence_eval = checkIfErrorIsRecurrent_def recentLogs_def sortByMtime_def isRealFailure_def
  statusErrorMarker_def js_endsWith_def priorReport_def unreadableFirst_def readableHistory_def

text \<open>
  The loop answers \<open>true\<close> exactly when some report matches and every report before it
  could be read.
\<close>

lemma reportMatches_step:
  "entryContent e = Some logContent \<Longrightarrow>
   reportMatches testResults e \<longleftrightarrow>
     (list_ex isRealFailure testResults \<and> js_includes logContent statusErrorMarker
      \<and> list_ex (\<lambda>errorType. js_includes logContent errorType \<and> js_includes logContent (js ''FALHOU''))
            (map description (filter isRealFailure testResults)))"
  by (auto simp: reportMatches_def statusErrorMarker_def isRealFailure_def list_ex_iff
      simp del: js_includes.simps)

lemma scanRecentLogs_iff:
  "scanRecentLogs testResults logs \<longleftrightarrow>
     (\<exists>k<length logs. (\<forall>j<k. entryContent (logs ! j) \<noteq> None) \<and> reportMatches testResults (logs ! k))"
proof (induction logs)
  case Nil
  then show ?case by simp
next
  case (Cons e logs)
  show ?case
  proof (cases "entryContent e")
    case None
    have "\<not> (\<exists>k<length (e # logs). (\<forall>j<k. entryContent ((e # logs) ! j) \<noteq> None)
              \<and> reportMatches testResults ((e # logs) ! k))"
    proof
      assume "\<exists>k<length (e # logs). (\<forall>j<k. entryContent ((e # logs) ! j) \<noteq> None)
              \<and> reportMatches testResults ((e # logs) ! k)"
      then obtain k where k: "\<forall>j<k. entryContent ((e # logs) ! j) \<noteq> None"
          "reportMatches testResults ((e # logs) ! k)" by blast
      show False
      proof (cases k)
        case 0
        then show ?thesis using k(2) None by (simp add: reportMatches_def)
      next
        case (Suc k')
        then show ?thesis using k(1) None by auto
      qed
    qed
    then show ?thesis using None by simp
  next
    case (Some logContent)
    show ?thesis
    proof (cases "reportMatches testResults e")
      case True
      then have "scanRecentLogs testResults (e # logs)"
        using Some reportMatches_step[OF Some, of testResults]
        by (simp add: Let_def del: js_includes.simps)
      moreover have "\<exists>k<length (e # logs). (\<forall>j<k. entryContent ((e # logs) ! j) \<noteq> None)
              \<and> reportMatches testResults ((e # logs) ! k)"
        using True by (intro exI[of _ 0]) simp
      ultimately show ?thesis by blast
    next
      case False
      then have s: "scanRecentLogs testResults (e # logs) = scanRecentLogs testResults logs"
        using Some reportMatches_step[OF Some, of testResults]
        by (auto simp: Let_def simp del: js_includes.simps)
      have "(\<exists>k<length (e # logs). (\<forall>j<k. entryContent ((e # logs) ! j) \<noteq> None)
              \<and> reportMatches testResults ((e # logs) ! k))
          \<longleftrightarrow> (\<exists>k<length logs. (\<forall>j<k. entryContent (logs ! j) \<noteq> None)
              \<and> reportMatches testResults (logs ! k))"
      proof
        assume "\<exists>k<length (e # logs). (\<forall>j<k. entryContent ((e # logs) ! j) \<noteq> None)
              \<and> reportMatches testResults ((e # logs) ! k)"
        then obtain k where k: "k < length (e # logs)"
            "\<forall>j<k. entryContent ((e # logs) ! j) \<noteq> None"
            "reportMatches testResults ((e # logs) ! k)" by blast
        then obtain k' where k': "k = Suc k'" using False by (cases k) auto
        have "\<forall>j<k'. entryContent (logs ! j) \<noteq> None"
        proof (intro allI impI)
          fix j assume "j < k'"
          then have "Suc j < k" using k' by simp
          then show "entryContent (logs ! j) \<noteq> None" using k(2) by fastforce
        qed
        then show "\<exists>k<length logs. (\<forall>j<k. entryContent (logs ! j) \<noteq> None)
              \<and> reportMatches testResults (logs ! k)"
          using k k' by (intro exI[of _ k']) simp
      next
        assume "\<exists>k<length logs. (\<forall>j<k. entryContent (logs ! j) \<noteq> None)
              \<and> reportMatches testResults (logs ! k)"
        then obtain k where k: "k < length logs" "\<forall>j<k. entryContent (logs ! j) \<noteq> None"
            "reportMatches testResults (logs ! k)" by blast
        have "\<forall>j<Suc k. entryContent ((e # logs) ! j) \<noteq> None"
        proof (intro allI impI)
          fix j assume "j < Suc k"
          then show "entryContent ((e # logs) ! j) \<noteq> None"
            using k(2) Some by (cases j) auto
        qed
        then show "\<exists>k<length (e # logs). (\<forall>j<k. entryContent ((e # logs) ! j) \<noteq> None)
              \<and> reportMatches testResults ((e # logs) ! k)"
          using k by (intro exI[of _ "Suc k"]) simp
      qed
      then show ?thesis using s Cons.IH by simp
    qed
  qed
qed

text \<open>
  The files examined: three of the \<open>*.log\<close> files (all of them when there are fewer),
  newest first, none of the files left out modified later than one that is examined.
\<close>

lemma recentLogs_None:
  "recentLogs es = None \<longleftrightarrow>
     (2 \<le> length (logFilesOf es) \<and> list_ex (\<lambda>e. entryMtime e = None) (logFilesOf es))"
  by (auto simp: recentLogs_def sortByMtime_def logFilesOf_def)

lemma recentLogs_characterised:
  assumes "recentLogs es = Some logs"
  shows "length logs = min 3 (length (logFilesOf es))"
    and "mset logs \<subseteq># mset (logFilesOf es)"
    and "sorted_wrt (\<lambda>a b. the (entryMtime b) \<le> the (entryMtime a)) logs"
    and "\<forall>e\<in>#mset (logFilesOf es) - mset logs. \<forall>e'\<in>set logs.
           the (entryMtime e) \<le> the (entryMtime e')"
proof -
  let ?files = "logFilesOf es"
  from assms obtain sf where s: "sortByMtime ?files = Some sf" and l: "logs = take 3 sf"
    by (auto simp: recentLogs_def logFilesOf_def)
  have ms: "mset sf = mset ?files"
    using s by (auto simp: sortByMtime_def split: if_splits)
  then have len: "length sf = length ?files" by (metis size_mset)
  show "length logs = min 3 (length ?files)" using l len by simp
  have split: "mset sf = mset logs + mset (drop 3 sf)"
    using l by (metis append_take_drop_id mset_append)
  show "mset logs \<subseteq># mset ?files" using split ms by (metis mset_subset_eq_add_left)
  have diff: "mset ?files - mset logs = mset (drop 3 sf)"
    using split ms by (metis add_diff_cancel_left')
  have srt: "sorted_wrt (\<lambda>a b. the (entryMtime b) \<le> the (entryMtime a)) sf"
  proof (cases "length ?files < 2")
    case True
    then have "length sf < 2" using len by simp
    then show ?thesis by (cases sf rule: list.exhaust[case_product list.exhaust]) auto
  next
    case False
    then have "sf = sort_key (\<lambda>e. - the (entryMtime e)) ?files"
      using s by (auto simp: sortByMtime_def split: if_splits)
    then have "sorted (map (\<lambda>e. - the (entryMtime e)) sf)" by simp
    then show ?thesis by (simp add: sorted_map)
  qed
  have "sorted_wrt (\<lambda>a b. the (entryMtime b) \<le> the (entryMtime a)) (take 3 sf @ drop 3 sf)"
    using srt by simp
  then have both: "sorted_wrt (\<lambda>a b. the (entryMtime b) \<le> the (entryMtime a)) (take 3 sf)"
    "\<forall>a\<in>set (take 3 sf). \<forall>b\<in>set (drop 3 sf). the (entryMtime b) \<le> the (entryMtime a)"
    unfolding sorted_wrt_append by blast+
  show "sorted_wrt (\<lambda>a b. the (entryMtime b) \<le> the (entryMtime a)) logs"
    using both(1) l by simp
  show "\<forall>e\<in>#mset ?files - mset logs. \<forall>e'\<in>set logs. the (entryMtime e) \<le> the (entryMtime e')"
    unfolding diff using both(2) l by auto
qed

text \<open>
  C5, as amended. The detector answers \<open>false\<close> when the history directory is absent or
  cannot be listed, and when it holds two or more \<open>*.log\<close> files and the modification
  time of one of them cannot be read. Otherwise it examines the three most recently
  modified \<open>*.log\<close> files (all of them when there are fewer), newest first, and answers
  \<open>true\<close> if and only if one of them matches and it and every examined file newer than
  it can be read. A file matches when it contains the error-status marker together with
  the literal description of one real failure (\<open>success = false\<close>, \<open>skipped = false\<close>) of
  the current results and the literal \<open>FALHOU\<close>. Files older than the match are not
  opened.
\<close>

theorem C5_recurrence:
  "\<not> checkIfErrorIsRecurrent testResults NoDir
   \<and> \<not> checkIfErrorIsRecurrent testResults DirUnreadable
   \<and> (2 \<le> length (logFilesOf es) \<and> list_ex (\<lambda>e. entryMtime e = None) (logFilesOf es)
        \<longrightarrow> \<not> checkIfErrorIsRecurrent testResults (Dir es))
   \<and> (length (logFilesOf es) < 2 \<or> list_all (\<lambda>e. entryMtime e \<noteq> None) (logFilesOf es)
        \<longrightarrow> (\<exists>logs. length logs = min 3 (length (logFilesOf es))
                \<and> mset logs \<subseteq># mset (logFilesOf es)
                \<and> sorted_wrt (\<lambda>a b. the (entryMtime b) \<le> the (entryMtime a)) logs
                \<and> (\<forall>e\<in>#mset (logFilesOf es) - mset logs. \<forall>e'\<in>set logs.
                       the (entryMtime e) \<le> the (entryMtime e'))
                \<and> (checkIfErrorIsRecurrent testResults (Dir es) \<longleftrightarrow>
                     (\<exists>k<length logs. (\<forall>j<k. entryContent (logs ! j) \<noteq> None)
                                      \<and> reportMatches testResults (logs ! k)))))"
proof -
  have 3: "\<not> checkIfErrorIsRecurrent testResults (Dir es)"
    if "2 \<le> length (logFilesOf es) \<and> list_ex (\<lambda>e. entryMtime e = None) (logFilesOf es)"
    using that recentLogs_None[of es] by (simp add: checkIfErrorIsRecurrent_def)
  have 4: "\<exists>logs. length logs = min 3 (length (logFilesOf es))
                \<and> mset logs \<subseteq># mset (logFilesOf es)
                \<and> sorted_wrt (\<lambda>a b. the (entryMtime b) \<le> the (entryMtime a)) logs
                \<and> (\<forall>e\<in>#mset (logFilesOf es) - mset logs. \<forall>e'\<in>set logs.
                       the (entryMtime e) \<le> the (entryMtime e'))
                \<and> (checkIfErrorIsRecurrent testResults (Dir es) \<longleftrightarrow>
                     (\<exists>k<length logs. (\<forall>j<k. entryContent (logs ! j) \<noteq> None)
                                      \<and> reportMatches testResults (logs ! k)))"
    if "length (logFilesOf es) < 2 \<or> list_all (\<lambda>e. entryMtime e \<noteq> None) (logFilesOf es)"
  proof -
    have "recentLogs es \<noteq> None"
      using that recentLogs_None[of es] by (auto simp: list_all_iff list_ex_iff)
    then obtain logs where l: "recentLogs es = Some logs" by blast
    have "checkIfErrorIsRecurrent testResults (Dir es) \<longleftrightarrow>
            (\<exists>k<length logs. (\<forall>j<k. entryContent (logs ! j) \<noteq> None)
                             \<and> reportMatches testResults (logs ! k))"
      using l scanRecentLogs_iff[of testResults logs] by (simp add: checkIfErrorIsRecurrent_def)
    then show ?thesis using recentLogs_characterised[OF l] by blast
  qed
  show ?thesis using 3 4 by (simp add: checkIfErrorIsRecurrent_def)
qed


lemmas history_eval = logFilesOf_def reportMatches_def fourReports_def vanishedReport_def

text \<open>
  Three instances. In \<open>fourReports\<close> only the fourth most recent report matches, and the
  answer is \<open>false\<close>; in \<open>readableHistory\<close> the older of the two reports matches, and the
  answer is \<open>true\<close>; in \<open>vanishedReport\<close> a modification time cannot be read.
\<close>

theorem C5_witness:
  "length (logFilesOf fourReports) = 4
   \<and> list_all (\<lambda>e. entryMtime e \<noteq> None) (logFilesOf fourReports)
   \<and> reportMatches [mixedRun] (fourReports ! 0)
   \<and> \<not> checkIfErrorIsRecurrent [mixedRun] (Dir fourReports)
   \<and> (\<exists>logs. length logs = 3
          \<and> mset logs \<subseteq># mset (logFilesOf fourReports)
          \<and> sorted_wrt (\<lambda>a b. the (entryMtime b) \<le> the (entryMtime a)) logs
          \<and> (\<forall>e\<in>#mset (logFilesOf fourReports) - mset logs. \<forall>e'\<in>set logs.
                 the (entryMtime e) \<le> the (entryMtime e'))
          \<and> \<not> (\<exists>k<length logs. (\<forall>j<k. entryContent (logs ! j) \<noteq> None)
                                \<and> reportMatches [mixedRun] (logs ! k)))
   \<and> length (logFilesOf readableHistory) = 2
   \<and> list_all (\<lambda>e. entryMtime e \<noteq> None) (logFilesOf readableHistory)
   \<and> checkIfErrorIsRecurrent [mixedRun] (Dir readableHistory)
   \<and> length (logFilesOf vanishedReport) = 2
   \<and> list_ex (\<lambda>e. entryMtime e = None) (logFilesOf vanishedReport)
   \<and> \<not> checkIfErrorIsRecurrent [mixedRun] (Dir vanishedReport)"
proof -
  have 1: "length (logFilesOf fourReports) = 4"
    "list_all (\<lambda>e. entryMtime e \<noteq> None) (logFilesOf fourReports)"
    by (simp_all add: history_eval recurrence_eval string_eval)
  have 2: "reportMatches [mixedRun] (fourReports ! 0)"
    by (simp add: history_eval recurrence_eval string_eval example_runs)
  have 3: "\<not> checkIfErrorIsRecurrent [mixedRun] (Dir fourReports)"
    by (simp add: history_eval recurrence_eval string_eval example_runs)
  have 4: "length (logFilesOf readableHistory) = 2"
    "list_all (\<lambda>e. entryMtime e \<noteq> None) (logFilesOf readableHistory)"
    "checkIfErrorIsRecurrent [mixedRun] (Dir readableHistory)"
    by (simp_all add: history_eval recurrence_eval string_eval example_runs)
  have 5: "length (logFilesOf vanishedReport) = 2"
    "list_ex (\<lambda>e. entryMtime e = None) (logFilesOf vanishedReport)"
    by (simp_all add: history_eval recurrence_eval string_eval)
  have 6: "\<not> checkIfErrorIsRecurrent [mixedRun] (Dir vanishedReport)"
    using C5_recurrence[of "[mixedRun]" vanishedReport] 5 by simp
  have 7: "\<exists>logs. length logs = 3
          \<and> mset logs \<subseteq># mset (logFilesOf fourReports)
          \<and> sorted_wrt (\<lambda>a b. the (entryMtime b) \<le> the (entryMtime a)) logs
          \<and> (\<forall>e\<in>#mset (logFilesOf fourReports) - mset logs. \<forall>e'\<in>set logs.
                 the (entryMtime e) \<le> the (entryMtime e'))
          \<and> \<not> (\<exists>k<length logs. (\<forall>j<k. entryContent (logs ! j) \<noteq> None)
                                \<and> reportMatches [mixedRun] (logs ! k))"
    using C5_recurrence[of "[mixedRun]" fourReports] 1 3 by simp
  show ?thesis using 1 2 3 4 5 6 7 by blast
qed

text \<open>
  The claim as stated fails on \<open>unreadableFirst\<close>: the older of the two reports contains
  the marker, the description of the failed build and \<open>FALHOU\<close>, but the newer entry
  cannot be read and the detector answers \<open>false\<close>.
\<close>

theorem C5_counterexample:
  "\<not> success mixedRun \<and> \<not> skipped mixedRun
   \<and> logFilesOf unreadableFirst = unreadableFirst
   \<and> length unreadableFirst = 2
   \<and> entryMtime (unreadableFirst ! 0) = Some 2000
   \<and> entryMtime (unreadableFirst ! 1) = Some 1000
   \<and> entryContent (unreadableFirst ! 1) = Some priorReport
   \<and> js_includes priorReport ([10060] @ js '' Status: ERRO'')
   \<and> js_includes priorReport (description mixedRun)
   \<and> js_includes priorReport (js ''FALHOU'')
   \<and> \<not> checkIfErrorIsRecurrent [mixedRun] (Dir unreadableFirst)"
  by (simp add: history_eval recurrence_eval string_eval example_runs)

subsection \<open>The matcher\<close>

text \<open>
  The backtracking matcher finds a match exactly when the expression accepts a prefix
  of the input. With it, the inner expression of \<open>extractErrorDetails\<close> always matches
  the text the outer one has matched, and the extraction never throws.
\<close>

lemma rmatch_sound:
  "rmatch r s opened gs = Some (rest, gs') \<Longrightarrow> \<exists>w. s = w @ rest \<and> accepts r w"
proof (induction r s opened gs arbitrary: rest gs' rule: rmatch.induct)
  case (1 s opened gs)
  then show ?case by simp
next
  case (2 n r s opened gs)
  then show ?case by simp
next
  case (3 n r s opened gs)
  then show ?case by (auto split: option.splits)
next
  case (4 a r opened gs)
  then show ?case by simp
next
  case (5 a r c cs opened gs)
  then show ?case by (auto split: if_splits)
next
  case (6 a r opened gs)
  then show ?case by simp
next
  case (7 a r c cs opened gs)
  show ?case
  proof (cases "atomMatches a c \<and> rmatch r cs opened gs \<noteq> None")
    case True
    then have "rmatch r cs opened gs = Some (rest, gs')" using 7(4) by auto
    then obtain w where "cs = w @ rest" "accepts r w" using 7(1) True by blast
    then have "c # cs = (c # w) @ rest \<and> accepts (Opt a # r) (c # w)" using True by simp
    then show ?thesis by blast
  next
    case False
    then have "rmatch r (c # cs) opened gs = Some (rest, gs')"
      using 7(4) by (cases "rmatch r cs opened gs") (auto split: if_splits)
    then obtain w where "c # cs = w @ rest" "accepts r w" using 7(2,3) False by blast
    then show ?thesis by auto
  qed
next
  case (8 a r opened gs)
  then obtain w where "[] = w @ rest" "accepts r w" by auto
  then have "[] = w @ rest \<and> accepts (Star a # r) w" by (auto intro: exI[of _ "[]"])
  then show ?case by blast
next
  case (9 a r c cs opened gs)
  show ?case
  proof (cases "atomMatches a c \<and> rmatch (Star a # r) cs opened gs \<noteq> None")
    case True
    then have "rmatch (Star a # r) cs opened gs = Some (rest, gs')" using 9(4) by auto
    then obtain w where w: "cs = w @ rest" "accepts (Star a # r) w" using 9(1) True by blast
    then obtain u v where "w = u @ v" "list_all (atomMatches a) u" "accepts r v" by auto
    then have "c # w = (c # u) @ v \<and> list_all (atomMatches a) (c # u) \<and> accepts r v"
      using True by simp
    then have "accepts (Star a # r) (c # w)" unfolding accepts.simps by blast
    then show ?thesis using w by (metis append_Cons)
  next
    case False
    then have "rmatch r (c # cs) opened gs = Some (rest, gs')"
      using 9(4) by (cases "rmatch (Star a # r) cs opened gs") (auto split: if_splits)
    then obtain w where "c # cs = w @ rest" "accepts r w" using 9(2,3) False by blast
    then have "c # cs = w @ rest \<and> accepts (Star a # r) w" by (auto intro: exI[of _ "[]"])
    then show ?thesis by blast
  qed
next
  case (10 a r opened gs)
  then obtain w where "[] = w @ rest" "accepts r w" by auto
  then have "[] = w @ rest \<and> accepts (LazyStar a # r) w" by (auto intro: exI[of _ "[]"])
  then show ?case by blast
next
  case (11 a r c cs opened gs)
  show ?case
  proof (cases "rmatch r (c # cs) opened gs")
    case (Some m)
    then have "rmatch r (c # cs) opened gs = Some (rest, gs')" using 11(3) by simp
    then obtain w where "c # cs = w @ rest" "accepts r w" using 11(1) by blast
    then have "c # cs = w @ rest \<and> accepts (LazyStar a # r) w" by (auto intro: exI[of _ "[]"])
    then show ?thesis by blast
  next
    case None
    then have m: "atomMatches a c" "rmatch (LazyStar a # r) cs opened gs = Some (rest, gs')"
      using 11(3) by (auto split: if_splits)
    then obtain w where w: "cs = w @ rest" "accepts (LazyStar a # r) w" using 11(2) None by blast
    then obtain u v where "w = u @ v" "list_all (atomMatches a) u" "accepts r v" by auto
    then have "c # w = (c # u) @ v \<and> list_all (atomMatches a) (c # u) \<and> accepts r v"
      using m by simp
    then have "accepts (LazyStar a # r) (c # w)" unfolding accepts.simps by blast
    then show ?thesis using w by (metis append_Cons)
  qed
qed


lemma rmatch_Star_complete:
  assumes cont: "rmatch r (v @ t) opened gs \<noteq> None"
    and "list_all (atomMatches a) u"
  shows "rmatch (Star a # r) (u @ v @ t) opened gs \<noteq> None"
  using assms(2)
proof (induction u)
  case Nil
  show ?case
  proof (cases "v @ t")
    case Nil
    then show ?thesis using cont by simp
  next
    case (Cons c cs)
    then show ?thesis using cont by (auto split: option.splits)
  qed
next
  case (Cons c u)
  then show ?case by (auto split: option.splits)
qed

lemma rmatch_LazyStar_complete:
  assumes cont: "rmatch r (v @ t) opened gs \<noteq> None"
    and "list_all (atomMatches a) u"
  shows "rmatch (LazyStar a # r) (u @ v @ t) opened gs \<noteq> None"
  using assms(2)
proof (induction u)
  case Nil
  show ?case
  proof (cases "v @ t")
    case Nil
    then show ?thesis using cont by simp
  next
    case (Cons c cs)
    then show ?thesis using cont by (auto split: option.splits)
  qed
next
  case (Cons c u)
  then show ?case by (auto split: option.splits)
qed

lemma rmatch_complete:
  "accepts r w \<Longrightarrow> groupsClosedAfterOpen r (map fst opened)
     \<Longrightarrow> rmatch r (w @ t) opened gs \<noteq> None"
proof (induction r arbitrary: w t opened gs)
  case Nil
  then show ?case by simp
next
  case (Cons x r)
  show ?case
  proof (cases x)
    case (One a)
    then show ?thesis using Cons by auto
  next
    case (Opt a)
    then have g: "groupsClosedAfterOpen r (map fst opened)" using Cons.prems by simp
    from Opt Cons.prems(1) consider "accepts r w"
      | c cs where "w = c # cs" "atomMatches a c" "accepts r cs" by auto
    then show ?thesis
    proof cases
      case 1
      then have "rmatch r (w @ t) opened gs \<noteq> None" using Cons.IH g by blast
      then show ?thesis using Opt by (cases "w @ t") (auto split: option.splits)
    next
      case 2
      then have "rmatch r (cs @ t) opened gs \<noteq> None" using Cons.IH g by blast
      then show ?thesis using Opt 2 by (auto split: option.splits)
    qed
  next
    case (Star a)
    then have g: "groupsClosedAfterOpen r (map fst opened)" using Cons.prems by simp
    from Star Cons.prems(1) obtain u v where uv: "w = u @ v" "list_all (atomMatches a) u" "accepts r v"
      by auto
    have "rmatch r (v @ t) opened gs \<noteq> None" using Cons.IH uv(3) g by blast
    then have "rmatch (Star a # r) (u @ v @ t) opened gs \<noteq> None"
      using uv(2) by (rule rmatch_Star_complete)
    then show ?thesis using Star uv by simp
  next
    case (LazyStar a)
    then have g: "groupsClosedAfterOpen r (map fst opened)" using Cons.prems by simp
    from LazyStar Cons.prems(1) obtain u v where uv: "w = u @ v" "list_all (atomMatches a) u" "accepts r v"
      by auto
    have "rmatch r (v @ t) opened gs \<noteq> None" using Cons.IH uv(3) g by blast
    then have "rmatch (LazyStar a # r) (u @ v @ t) opened gs \<noteq> None"
      using uv(2) by (rule rmatch_LazyStar_complete)
    then show ?thesis using LazyStar uv by simp
  next
    case (GOpen n)
    then show ?thesis using Cons by auto
  next
    case (GClose n)
    then have "n \<in> fst ` set opened" using Cons.prems by auto
    then obtain st where "map_of opened n = Some st"
      by (metis domD dom_map_of_conv_image_fst)
    then show ?thesis using GClose Cons by auto
  qed
qed

declare rmatchAll.simps [simp del]

lemma accepts_append:
  "accepts (r1 @ r2) w \<Longrightarrow> \<exists>w1 w2. w = w1 @ w2 \<and> accepts r1 w1 \<and> accepts r2 w2"
proof (induction r1 arbitrary: w)
  case Nil
  then show ?case by simp
next
  case (Cons x r1)
  show ?case
  proof (cases x)
    case (One a)
    with Cons.prems obtain c cs where w: "w = c # cs" "atomMatches a c" "accepts (r1 @ r2) cs" by auto
    then obtain w1 w2 where "cs = w1 @ w2" "accepts r1 w1" "accepts r2 w2" using Cons.IH by blast
    then have "w = (c # w1) @ w2 \<and> accepts (x # r1) (c # w1) \<and> accepts r2 w2" using w One by simp
    then show ?thesis by blast
  next
    case (Opt a)
    with Cons.prems consider "accepts (r1 @ r2) w"
      | c cs where "w = c # cs" "atomMatches a c" "accepts (r1 @ r2) cs" by auto
    then show ?thesis
    proof cases
      case 1
      then obtain w1 w2 where "w = w1 @ w2" "accepts r1 w1" "accepts r2 w2" using Cons.IH by blast
      then have "w = w1 @ w2 \<and> accepts (x # r1) w1 \<and> accepts r2 w2" using Opt by simp
      then show ?thesis by blast
    next
      case 2
      then obtain w1 w2 where "cs = w1 @ w2" "accepts r1 w1" "accepts r2 w2" using Cons.IH by blast
      then have "w = (c # w1) @ w2 \<and> accepts (x # r1) (c # w1) \<and> accepts r2 w2" using 2 Opt by simp
      then show ?thesis by blast
    qed
  next
    case (Star a)
    with Cons.prems obtain u v where uv: "w = u @ v" "list_all (atomMatches a) u" "accepts (r1 @ r2) v"
      by auto
    then obtain w1 w2 where w: "v = w1 @ w2" "accepts r1 w1" "accepts r2 w2" using Cons.IH by blast
    have "accepts (x # r1) (u @ w1)" using Star uv(2) w(2) by auto
    then have "w = (u @ w1) @ w2 \<and> accepts (x # r1) (u @ w1) \<and> accepts r2 w2" using uv w by simp
    then show ?thesis by blast
  next
    case (LazyStar a)
    with Cons.prems obtain u v where uv: "w = u @ v" "list_all (atomMatches a) u" "accepts (r1 @ r2) v"
      by auto
    then obtain w1 w2 where w: "v = w1 @ w2" "accepts r1 w1" "accepts r2 w2" using Cons.IH by blast
    have "accepts (x # r1) (u @ w1)" using LazyStar uv(2) w(2) by auto
    then have "w = (u @ w1) @ w2 \<and> accepts (x # r1) (u @ w1) \<and> accepts r2 w2" using uv w by simp
    then show ?thesis by blast
  next
    case (GOpen n)
    then show ?thesis using Cons by auto
  next
    case (GClose n)
    then show ?thesis using Cons by auto
  qed
qed

lemma rsearch_Some:
  "rsearch r s = Some m \<Longrightarrow>
     \<exists>s' rest gs. rmatch r s' [] [] = Some (rest, gs)
        \<and> matchText m = take (length s' - length rest) s' \<and> matchRest m = rest"
proof (induction s)
  case Nil
  then show ?case by (auto split: option.splits) (metis list.size(3) take_eq_Nil)
next
  case (Cons c cs)
  show ?case
  proof (cases "rmatch r (c # cs) [] []")
    case None
    then show ?thesis using Cons by simp
  next
    case (Some p)
    obtain rest gs where p: "p = (rest, gs)" by (cases p)
    with Some Cons.prems have "m = \<lparr> matchText = take (length (c # cs) - length rest) (c # cs),
        matchRest = rest, matchGroups = gs \<rparr>" by simp
    then show ?thesis using Some p by (intro exI[of _ "c # cs"] exI[of _ rest] exI[of _ gs]) simp
  qed
qed

lemma rsearch_start: "rmatch r s [] [] \<noteq> None \<Longrightarrow> rsearch r s \<noteq> None"
  by (cases s) (auto split: option.splits)

lemma rmatchAll_elem: "m \<in> set (rmatchAll r s) \<Longrightarrow> \<exists>s'. rsearch r s' = Some m"
proof (induction r s rule: rmatchAll.induct)
  case (1 r s)
  show ?case
  proof (cases "rsearch r s")
    case None
    then show ?thesis using 1(2) by (simp add: rmatchAll.simps)
  next
    case (Some m')
    show ?thesis
    proof (cases "m = m'")
      case True
      then show ?thesis using Some by blast
    next
      case False
      then have "length (matchRest m') < length s \<and> m \<in> set (rmatchAll r (matchRest m'))"
        using 1(2) Some by (subst (asm) rmatchAll.simps) (auto split: if_splits)
      then show ?thesis using 1(1) Some by blast
    qed
  qed
qed

lemma rmatchAll_head:
  "rsearch r s = Some m \<Longrightarrow> \<exists>ms. rmatchAll r s = m # ms"
  by (subst rmatchAll.simps) simp

lemma failedTestPattern_split:
  "failedTestPattern = testNamePattern @ exactly 20 (Lit 45)"
  by (simp add: failedTestPattern_def testNamePattern_def)

lemma testNamePattern_groups: "groupsClosedAfterOpen testNamePattern []"
  by (simp add: testNamePattern_def lits_def oneOrMore_def oneOrMoreLazy_def js_def nl_def)

lemma testNameOf_total:
  assumes "m \<in> set (rmatchAll failedTestPattern s)"
  shows "testNameOf m \<noteq> None"
proof -
  obtain s' where "rsearch failedTestPattern s' = Some m"
    using rmatchAll_elem[OF assms] by blast
  then obtain s'' rest gs where r: "rmatch failedTestPattern s'' [] [] = Some (rest, gs)"
      and t: "matchText m = take (length s'' - length rest) s''"
    using rsearch_Some by blast
  obtain w where w: "s'' = w @ rest" "accepts failedTestPattern w"
    using rmatch_sound[OF r] by blast
  then have mt: "matchText m = w" using t by simp
  obtain w1 w2 where w12: "w = w1 @ w2" "accepts testNamePattern w1"
    using w(2) accepts_append unfolding failedTestPattern_split by blast
  have "rmatch testNamePattern (w1 @ w2) [] [] \<noteq> None"
    using rmatch_complete[OF w12(2), of "[]" w2 "[]"] testNamePattern_groups by simp
  then have "rsearch testNamePattern (matchText m) \<noteq> None"
    unfolding mt w12(1) by (rule rsearch_start)
  then show ?thesis by (auto simp: testNameOf_def split: option.splits)
qed

lemma allSome_map: "(\<forall>x\<in>set xs. f x \<noteq> None) \<Longrightarrow> allSome (map f xs) \<noteq> None"
  by (induction xs) (auto split: option.splits)

lemma extractFailedTests_total: "extractFailedTests logContent \<noteq> None"
proof -
  have "allSome (map testNameOf (rmatchAll failedTestPattern s)) \<noteq> None" for s
    by (rule allSome_map) (simp add: testNameOf_total)
  then show ?thesis
    unfolding extractFailedTests_def by (simp split: option.splits)
qed

lemma rsearch_skip:
  "noMatchStartsIn r before rest \<Longrightarrow> rsearch r (before @ rest) = rsearch r rest"
  by (induction before) auto

lemma uniqueInOrder_count:
  "count_list (uniqueInOrder seen xs) x = (if x \<in> set xs \<and> x \<notin> set seen then 1 else 0)"
  by (induction xs arbitrary: seen) auto

lemma commandsForType_typescript:
  "js ''npx tsc --noEmit'' \<in> set (commandsForType commands (js ''TYPESCRIPT_ERROR''))"
  by (simp add: commandsForType_def pushNew_def)

lemma typescript_command_once:
  "errorType details = js ''TYPESCRIPT_ERROR'' \<Longrightarrow>
   count_list (generateSpecificCommandsFromFailedTests tests details) (js ''npx tsc --noEmit'') = 1"
  using commandsForType_typescript
  by (simp add: generateSpecificCommandsFromFailedTests_def Let_def uniqueInOrder_count)

lemma classifyError_typescript:
  assumes "js_includes logContent typeCheckDescription"
  shows "classifyError tests logContent = js ''TYPESCRIPT_ERROR''"
proof -
  have "js_includes (js_toLowerCase logContent) (js_toLowerCase typeCheckDescription)"
    using assms by (rule js_includes_toLowerCase)
  moreover have "js_includes (js_toLowerCase typeCheckDescription) (js ''typescript'')"
    by (simp add: typeCheckDescription_def string_eval)
  ultimately have "js_includes (js_toLowerCase logContent) (js ''typescript'')"
    by (rule js_includes_trans)
  then show ?thesis by (simp add: classifyError_def Let_def del: js_includes.simps)
qed


lemma rmatch_tsErrorLine:
  "rmatch (hd filePatterns) (tsErrorLine @ rest) [] []
     = Some (drop 22 tsErrorLine @ rest, [(2, js ''10''), (1, js ''src/app/page.tsx'')])"
  by (simp add: filePatterns_def tsFile_def lits_def oneOrMore_def tsErrorLine_def string_eval)

subsection \<open>DiagnosticEngine\<close>

lemma replicate_numeral: "replicate (numeral k) x = x # replicate (pred_numeral k) x"
  by (simp add: numeral_eq_Suc)

lemmas report_eval = generateComprehensiveLog_def reportHeader_def environmentBlock_def statusBlock_def
  summaryBlock_def detailsBlock_def testDetail_def statusLabel_def showCode_def showInt_def
  detailedErrorsBlock_def errorDetail_def filteredErrorsBlock_def filteredDetail_def footerBlock_def
  overallSuccess_def js_repeat_def exampleEnv_def enumerate_eq_zip Let_def replicate_numeral

lemmas regex_eval = filePatterns_def tsFile_def lits_def oneOrMore_def oneOrMoreLazy_def exactly_def
  failedTestPattern_def testNamePattern_def matchGroup_def

lemma parseInt_10: "parseInt (js ''10'') = Some 10"
  by (simp add: parseInt_def digitValue_def isRadixDigit_def Let_def string_eval)

text \<open>The first pattern: a match is a run of non-blank units, then .ts( or .tsx(, and so on.\<close>

lemma first_pattern_shape:
  assumes "rmatch (hd filePatterns) s [] [] = Some (rest, gs)"
  shows "\<exists>u v. s = u @ v \<and> u \<noteq> [] \<and> list_all (\<lambda>c. \<not> isWhiteSpace c) u
            \<and> (js_startsWith v (js ''.ts('') \<or> js_startsWith v (js ''.tsx(''))"
proof -
  obtain w where w: "s = w @ rest" "accepts (hd filePatterns) w"
    using rmatch_sound[OF assms] by blast
  from w(2) obtain c u v where cu: "w = c # u @ v" "\<not> isWhiteSpace c" "list_all (atomMatches NonWhiteSp) u"
      and v: "(\<exists>t. v = js ''.ts('' @ t) \<or> (\<exists>t. v = js ''.tsx('' @ t)"
    by (auto simp: regex_eval js_def)
  have "s = (c # u) @ (v @ rest)" using w cu by simp
  moreover have "list_all (\<lambda>c. \<not> isWhiteSpace c) (c # u)"
    using cu by (simp add: list_all_iff)
  moreover have "js_startsWith (v @ rest) (js ''.ts('') \<or> js_startsWith (v @ rest) (js ''.tsx('')"
    using v by (auto simp: js_startsWith_iff)
  ultimately show ?thesis by blast
qed

lemma nonblank_prefix_inside:
  assumes "list_all (\<lambda>c. \<not> isWhiteSpace c) n" and "n @ t = b @ rest"
    and "b \<noteq> []" and "isWhiteSpace (last b)"
  shows "\<exists>t'. b = n @ t'"
proof -
  from assms(2) consider t' where "b = n @ t'" | t'' where "n = b @ t''"
    by (auto simp: append_eq_append_conv2)
  then show ?thesis
  proof cases
    case 1
    then show ?thesis by blast
  next
    case 2
    then have "last b \<in> set n" using assms(3) by auto
    then show ?thesis using assms(1,4) by (auto simp: list_all_iff)
  qed
qed

lemma no_ts_location_before:
  assumes "before = [] \<or> isWhiteSpace (last before)"
    and "\<not> js_includes before (js ''.ts('')" and "\<not> js_includes before (js ''.tsx('')"
  shows "noMatchStartsIn (hd filePatterns) before rest"
  using assms
proof (induction before)
  case Nil
  then show ?case by simp
next
  case (Cons c b)
  have tail: "noMatchStartsIn (hd filePatterns) b rest"
  proof (cases "b = []")
    case True
    then show ?thesis by simp
  next
    case False
    then show ?thesis using Cons by (auto simp del: js_includes.simps simp: js_includes.simps(2))
  qed
  have "rmatch (hd filePatterns) (c # b @ rest) [] [] = None"
  proof (rule ccontr)
    assume "rmatch (hd filePatterns) (c # b @ rest) [] [] \<noteq> None"
    then obtain rest' gs where "rmatch (hd filePatterns) ((c # b) @ rest) [] [] = Some (rest', gs)"
      by auto
    then obtain u v where uv: "(c # b) @ rest = u @ v" "list_all (\<lambda>c. \<not> isWhiteSpace c) u"
        and v: "js_startsWith v (js ''.ts('') \<or> js_startsWith v (js ''.tsx('')"
      using first_pattern_shape by blast
    from v obtain k t where k: "v = k @ t" "k = js ''.ts('' \<or> k = js ''.tsx(''"
      by (auto simp: js_startsWith_iff)
    have "list_all (\<lambda>c. \<not> isWhiteSpace c) (u @ k)"
      using uv(2) k(2) by (auto simp: string_eval)
    moreover have "(u @ k) @ t = (c # b) @ rest" using uv k by simp
    ultimately obtain t' where "c # b = (u @ k) @ t'"
      using nonblank_prefix_inside[of "u @ k" t "c # b" rest] Cons.prems(1) by blast
    then have "js_includes (c # b) k" unfolding js_includes_iff by (metis append.assoc)
    then show False using k(2) Cons.prems(2,3) by blast
  qed
  then show ?case using tail by simp
qed

lemma locateFile_first:
  assumes "noMatchStartsIn (hd filePatterns) before s"
    and "rmatch (hd filePatterns) s [] [] = Some (rest, gs)"
    and "map_of gs 1 = Some file" and "map_of gs 2 = Some (d # ds)" and "parseInt (d # ds) = Some n"
  shows "locateFile filePatterns (before @ s) = (file, LineNum n)"
proof -
  have "rsearch (hd filePatterns) s \<noteq> None"
    using assms(2) by (intro rsearch_start) simp
  then obtain m where m: "rsearch (hd filePatterns) s = Some m" by blast
  have "matchGroups m = gs"
    using m assms(2) by (cases s) (auto split: option.splits)
  moreover have "rsearch (hd filePatterns) (before @ s) = Some m"
    using rsearch_skip[OF assms(1)] m by simp
  then obtain ms where "rmatchAll (hd filePatterns) (before @ s) = m # ms"
    using rmatchAll_head by blast
  ultimately have "locateFile (hd filePatterns # tl filePatterns) (before @ s) = (file, LineNum n)"
    using assms(3,4,5) by (simp add: matchGroup_def)
  moreover have "hd filePatterns # tl filePatterns = filePatterns"
    by (simp add: filePatterns_def)
  ultimately show ?thesis by simp
qed

lemma rsearch_suffix:
  "rsearch r s = Some m \<Longrightarrow>
     \<exists>pre s'. s = pre @ s' \<and> rmatch r s' [] [] = Some (matchRest m, matchGroups m)"
proof (induction s)
  case Nil
  then show ?case by (auto split: option.splits)
next
  case (Cons c cs)
  show ?case
  proof (cases "rmatch r (c # cs) [] []")
    case None
    then obtain pre s' where "cs = pre @ s'" "rmatch r s' [] [] = Some (matchRest m, matchGroups m)"
      using Cons by auto
    then have "c # cs = (c # pre) @ s' \<and> rmatch r s' [] [] = Some (matchRest m, matchGroups m)"
      by simp
    then show ?thesis by blast
  next
    case (Some p)
    then have "c # cs = [] @ (c # cs) \<and> rmatch r (c # cs) [] [] = Some (matchRest m, matchGroups m)"
      using Cons.prems by (cases p) auto
    then show ?thesis by blast
  qed
qed

text \<open>
  None of the expressions the scripts search globally accepts the empty word, so every
  match of theirs leaves less input than the search was given: \<open>rmatchAll\<close> never stops
  at a match.
\<close>

lemma rmatchAll_progress:
  assumes "r = failedTestPattern \<or> r \<in> set filePatterns" and "rsearch r s = Some m"
  shows "length (matchRest m) < length s"
proof -
  obtain pre s' where s: "s = pre @ s'" and "rmatch r s' [] [] = Some (matchRest m, matchGroups m)"
    using rsearch_suffix[OF assms(2)] by blast
  then obtain w where w: "s' = w @ matchRest m" "accepts r w"
    using rmatch_sound by blast
  have "\<not> accepts r []"
    using assms(1) by (auto simp: regex_eval js_def nl_def)
  then have "w \<noteq> []" using w(2) by auto
  then show ?thesis using s w(1) by simp
qed

text \<open>
  C6, as amended. The extraction uses the first pattern of the list that matches
  anywhere in the text and, of that pattern, the first match only, so a compiler line
  that comes earlier decides the file and the line. So: if the loaded report text
  contains the line \<open>src/app/page.tsx(10,5): error TS2304: Cannot find name 'Foo'.\<close>, no
  match of the first pattern (non-blank characters ending in \<open>.ts\<close> or \<open>.tsx\<close>, then
  \<open>(line,column)\<close>) starts before that line, and the text contains the description
  \<open>Verifica\<dots>o TypeScript\<close>, then the extraction returns details (it does not throw)
  with \<open>fileName = src/app/page.tsx\<close>, \<open>lineNumber = 10\<close> and \<open>type = TYPESCRIPT_ERROR\<close>,
  and the list of remediation commands synthesized from them contains
  \<open>npx tsc --noEmit\<close> exactly once.
\<close>

theorem C6_typescript_location:
  assumes "logContent = before @ tsErrorLine @ rest"
    and "noMatchStartsIn (hd filePatterns) before (tsErrorLine @ rest)"
    and "js_includes logContent typeCheckDescription"
  shows "\<exists>details. extractErrorDetails logContent = Some details
           \<and> fileName details = js ''src/app/page.tsx''
           \<and> lineNumber details = LineNum 10
           \<and> errorType details = js ''TYPESCRIPT_ERROR''
           \<and> count_list (generateSpecificCommandsFromFailedTests (failedTests details) details)
                         (js ''npx tsc --noEmit'') = 1"
proof -
  obtain tests where t: "extractFailedTests logContent = Some tests"
    using extractFailedTests_total by blast
  have loc: "locateFile filePatterns logContent = (js ''src/app/page.tsx'', LineNum 10)"
    unfolding assms(1)
    by (rule locateFile_first[OF assms(2) rmatch_tsErrorLine, of "js ''src/app/page.tsx''" 49 "[48]"])
       (simp_all add: parseInt_10[unfolded js_def, simplified] js_def)
  let ?d = "\<lparr> errorType = classifyError tests logContent, message = [],
              fileName = fst (locateFile filePatterns logContent),
              lineNumber = snd (locateFile filePatterns logContent),
              stackTrace = [], fullError = extractFullError logContent, failedTests = tests \<rparr>"
  have "extractErrorDetails logContent = Some ?d"
    by (simp add: extractErrorDetails_def t)
  moreover have "errorType ?d = js ''TYPESCRIPT_ERROR''"
    using classifyError_typescript[OF assms(3)] by simp
  moreover from this have "count_list (generateSpecificCommandsFromFailedTests (failedTests ?d) ?d)
                         (js ''npx tsc --noEmit'') = 1"
    by (rule typescript_command_once)
  moreover have "fileName ?d = js ''src/app/page.tsx''" "lineNumber ?d = LineNum 10"
    using loc by simp_all
  ultimately show ?thesis by blast
qed

text \<open>
  The second end-to-end scenario is an instance: the report rendered for a type check
  that exits 1 with that line on stderr (and a dependency listing that passes).
\<close>

lemma scenarioReport_split:
  "scenarioReport = take 590 scenarioReport @ tsErrorLine @ drop 651 scenarioReport"
  by (simp add: scenarioReport_def typeCheckRun_def typeCheckDescription_def tsErrorLine_def
      example_runs report_eval string_eval)

lemma scenarioReport_before:
  "isWhiteSpace (last (take 590 scenarioReport))"
  "\<not> js_includes (take 590 scenarioReport) (js ''.ts('')"
  "\<not> js_includes (take 590 scenarioReport) (js ''.tsx('')"
  by (simp_all add: scenarioReport_def typeCheckRun_def typeCheckDescription_def tsErrorLine_def
      example_runs report_eval string_eval)

lemma scenarioReport_description: "js_includes scenarioReport typeCheckDescription"
  by (simp add: scenarioReport_def typeCheckRun_def typeCheckDescription_def tsErrorLine_def
      example_runs report_eval string_eval)

theorem C6_witness:
  "\<exists>details. extractErrorDetails scenarioReport = Some details
           \<and> fileName details = js ''src/app/page.tsx''
           \<and> lineNumber details = LineNum 10
           \<and> errorType details = js ''TYPESCRIPT_ERROR''
           \<and> count_list (generateSpecificCommandsFromFailedTests (failedTests details) details)
                         (js ''npx tsc --noEmit'') = 1"
  using C6_typescript_location[OF scenarioReport_split
      no_ts_location_before[OF disjI2[OF scenarioReport_before(1)] scenarioReport_before(2,3)]
      scenarioReport_description]
  by simp

lemmas scenario_eval = scenarioReport_def twoErrorsReport_def typeCheckRun_def twoErrorsRun_def
  typeCheckDescription_def tsErrorLine_def dbErrorLine_def

lemma rmatch_dbErrorLine:
  "rmatch (hd filePatterns) (dbErrorLine @ rest) [] []
     = Some (drop 18 dbErrorLine @ rest, [(2, js ''3''), (1, js ''src/lib/db.ts'')])"
  by (simp add: regex_eval dbErrorLine_def string_eval)

lemma parseInt_3: "parseInt (js ''3'') = Some 3"
  by (simp add: parseInt_def digitValue_def isRadixDigit_def Let_def string_eval)

lemma twoErrorsReport_split:
  "twoErrorsReport = take 590 twoErrorsReport @ dbErrorLine @ drop 638 twoErrorsReport"
  by (simp add: scenario_eval example_runs report_eval string_eval)

lemma twoErrorsReport_before:
  "isWhiteSpace (last (take 590 twoErrorsReport))"
  "\<not> js_includes (take 590 twoErrorsReport) (js ''.ts('')"
  "\<not> js_includes (take 590 twoErrorsReport) (js ''.tsx('')"
  by (simp_all add: scenario_eval example_runs report_eval string_eval)

lemma twoErrorsReport_contains:
  "js_includes twoErrorsReport (nl @ tsErrorLine @ nl)"
  "js_includes twoErrorsReport typeCheckDescription"
  by (simp_all add: scenario_eval example_runs report_eval string_eval)

lemma twoErrorsReport_location:
  "locateFile filePatterns twoErrorsReport = (js ''src/lib/db.ts'', LineNum 3)"
  by (subst twoErrorsReport_split,
      rule locateFile_first[OF
        no_ts_location_before[OF disjI2[OF twoErrorsReport_before(1)] twoErrorsReport_before(2,3)]
        rmatch_dbErrorLine, of "js ''src/lib/db.ts''" 51 "[]"])
     (simp_all add: parseInt_3[unfolded js_def, simplified] js_def)

text \<open>
  The claim as stated fails on the report of a type check whose stderr has another
  compiler line first: the report contains the line of the claim and the description,
  and the extraction answers \<open>src/lib/db.ts\<close>, line 3.
\<close>

theorem C6_counterexample:
  "js_includes twoErrorsReport (nl @ tsErrorLine @ nl)
   \<and> js_includes twoErrorsReport typeCheckDescription
   \<and> map_option fileName (extractErrorDetails twoErrorsReport) = Some (js ''src/lib/db.ts'')
   \<and> map_option lineNumber (extractErrorDetails twoErrorsReport) = Some (LineNum 3)"
proof -
  obtain tests where "extractFailedTests twoErrorsReport = Some tests"
    using extractFailedTests_total by blast
  then show ?thesis
    using twoErrorsReport_contains twoErrorsReport_location
    by (simp add: extractErrorDetails_def del: js_includes.simps)
qed

end
